theory Spec2Isabelle
  imports Complex_Main
begin

section \<open>Exceptions\<close>

text \<open>
  The exceptions the engine and the tracker raise or intercept. \<open>EpochCancel\<close> and
  \<open>FitCancel\<close> are the two cancellation sentinels of \<open>gradsflow.models.exceptions\<close>;
  \<open>KeyError\<close> carries its message; \<open>ConfigurationError\<close> is what \<open>assert_compiled\<close>
  raises on a model that was never compiled; \<open>AttributeError\<close> is Python's answer to
  reading an attribute of \<open>None\<close>; \<open>OtherException\<close> stands for any fault of a
  callback or collaborator.
\<close>

datatype exn =
    EpochCancel
  | FitCancel
  | KeyboardInterrupt
  | KeyError string
  | ConfigurationError
  | AttributeError
  | OtherException string

section \<open>The data model of \<open>tracker.py\<close>\<close>

text \<open>
  Modelled from the spec: the scalar accumulator read through \<open>.avg\<close> and \<open>.computed\<close>
  (its class is not part of the sources). It holds \<open>{sum, count, avg, computed}\<close>;
  \<open>avg = sum / count\<close> once a value was folded in, \<open>computed\<close> is false initially and
  \<open>avg\<close> is undefined until then. Floats are idealised as reals.
\<close>

record accumulator =
  sum_v :: real
  count_v :: nat
  avg :: "real option"
  computed :: bool

definition new_accumulator :: accumulator where
  "new_accumulator = \<lparr>sum_v = 0, count_v = 0, avg = None, computed = False\<rparr>"

definition update_acc :: "real \<Rightarrow> accumulator \<Rightarrow> accumulator" where
  "update_acc v a =
     (let s = sum_v a + v; c = Suc (count_v a)
      in \<lparr>sum_v = s, count_v = c, avg = Some (s / real c), computed = True\<rparr>)"

text \<open>
  Modelled from the spec: \<open>TrackingValues\<close>, the accumulator bundle of one mode (its
  class is not part of the sources). The sources read and write its fields \<open>loss\<close>,
  \<open>metrics\<close> (a dict, kept here in insertion order) and \<open>steps\<close>, and call
  \<open>update_loss\<close> and \<open>update_metrics\<close>.
\<close>

record tracking_values =
  loss :: accumulator
  metrics :: "(string \<times> accumulator) list"
  steps :: "nat option"

definition TrackingValues :: tracking_values where
  "TrackingValues = \<lparr>loss = new_accumulator, metrics = [], steps = None\<rparr>"

definition update_loss :: "real \<Rightarrow> tracking_values \<Rightarrow> tracking_values" where
  "update_loss v tv = tv\<lparr>loss := update_acc v (loss tv)\<rparr>"

fun update_metric :: "string \<Rightarrow> real \<Rightarrow> (string \<times> accumulator) list \<Rightarrow> (string \<times> accumulator) list" where
  "update_metric k v [] = [(k, update_acc v new_accumulator)]"
| "update_metric k v ((k', a) # ms) =
     (if k = k' then (k', update_acc v a) # ms else (k', a) # update_metric k v ms)"

definition update_metrics :: "(string \<times> real) list \<Rightarrow> tracking_values \<Rightarrow> tracking_values" where
  "update_metrics metric tv =
     tv\<lparr>metrics := foldl (\<lambda>ms (k, v). update_metric k v ms) (metrics tv) metric\<rparr>"

text \<open>
  \<open>TrackingValues\<close> objects are shared by reference: \<open>tracker.train\<close> hands out the
  object itself, and \<open>reset\<close> rebinds the attribute to a newly constructed one. The
  store maps references to objects; \<open>next_ref\<close> is the first reference never handed
  out, so that construction is allocation at \<open>next_ref\<close>.
\<close>

type_synonym ref = nat

record heap =
  objs :: "ref \<Rightarrow> tracking_values"
  next_ref :: ref

definition alloc :: "tracking_values \<Rightarrow> heap \<Rightarrow> ref \<times> heap" where
  "alloc tv h = (next_ref h, \<lparr>objs = (objs h)(next_ref h := tv), next_ref = Suc (next_ref h)\<rparr>)"

definition modify :: "ref \<Rightarrow> (tracking_values \<Rightarrow> tracking_values) \<Rightarrow> heap \<Rightarrow> heap" where
  "modify r f h = h\<lparr>objs := (objs h)(r := f (objs h r))\<rparr>"

text \<open>One log record \<open>{"current_epoch": epoch, key: value}\<close>.\<close>

record log_record =
  log_epoch :: int
  log_key :: string
  log_value :: real

record tracker =
  max_epochs :: int
  current_epoch :: int
  steps_per_epoch :: "int option"
  train :: ref
  val :: ref
  logs :: "log_record list"

text \<open>A tracker together with the store its two references point into.\<close>

type_synonym tstate = "tracker \<times> heap"

text \<open>The references of a tracker are allocated ones.\<close>

definition allocated :: "tstate \<Rightarrow> bool" where
  "allocated s = (train (fst s) < next_ref (snd s) \<and> val (fst s) < next_ref (snd s))"

section \<open>\<open>Tracker\<close>\<close>

text \<open>What \<open>__getitem__\<close> returns: a bundle (by reference), or one of the two dicts.\<close>

datatype view =
    Bundle ref
  | MetricsView "(string \<times> accumulator) list" "(string \<times> accumulator) list"
  | LossView "real option" "real option"

definition train_loss :: "tstate \<Rightarrow> real option" where
  "train_loss s = avg (loss (objs (snd s) (train (fst s))))"

definition val_loss :: "tstate \<Rightarrow> real option" where
  "val_loss s = avg (loss (objs (snd s) (val (fst s))))"

definition train_metrics :: "tstate \<Rightarrow> (string \<times> accumulator) list" where
  "train_metrics s = metrics (objs (snd s) (train (fst s)))"

definition val_metrics :: "tstate \<Rightarrow> (string \<times> accumulator) list" where
  "val_metrics s = metrics (objs (snd s) (val (fst s)))"

definition mode :: "string \<Rightarrow> tstate \<Rightarrow> exn + ref" where
  "mode m s =
     (if m = ''train'' then Inr (train (fst s))
      else if m = ''val'' then Inr (val (fst s))
      else Inl (KeyError (''mode '' @ m @ '' is not implemented!'')))"

definition getitem :: "string \<Rightarrow> tstate \<Rightarrow> exn + view" where
  "getitem key s =
     (if key = ''train'' \<or> key = ''val'' then
        (case mode key s of Inl e \<Rightarrow> Inl e | Inr r \<Rightarrow> Inr (Bundle r))
      else if key = ''metrics'' then Inr (MetricsView (train_metrics s) (val_metrics s))
      else if key = ''loss'' then Inr (LossView (train_loss s) (val_loss s))
      else Inl (KeyError (''key '' @ key @ '' is not implemented!'')))"

text \<open>\<open>to_item\<close> turns a tensor into a plain number; on a plain number it is the identity.\<close>

definition to_item :: "real \<Rightarrow> real" where
  "to_item x = x"

definition append_logs :: "string \<Rightarrow> real \<Rightarrow> tstate \<Rightarrow> tstate" where
  "append_logs key v s =
     (let t = fst s;
          data = \<lparr>log_epoch = current_epoch t, log_key = key, log_value = to_item v\<rparr>
      in (t\<lparr>logs := logs t @ [data]\<rparr>, snd s))"

text \<open>
  The tracker's procedures return the state they leave behind and the exception they
  raised, if any: what a Python method mutated before raising stays mutated.
\<close>

definition track_loss :: "real \<Rightarrow> string \<Rightarrow> tstate \<Rightarrow> tstate \<times> exn option" where
  "track_loss l m s =
     (let l' = to_item l in
      case mode m s of
        Inl e \<Rightarrow> (s, Some e)
      | Inr value_tracker \<Rightarrow>
          (let s1 = (fst s, modify value_tracker (update_loss l') (snd s));
               key = m @ ''/'' @ ''loss''
           in (append_logs key l' s1, None)))"

definition track_metrics :: "(string \<times> real) list \<Rightarrow> string \<Rightarrow> tstate \<Rightarrow> tstate \<times> exn option" where
  "track_metrics metric m s =
     (case mode m s of
        Inl e \<Rightarrow> (s, Some e)
      | Inr value_tracker \<Rightarrow>
          (let s1 = (fst s, modify value_tracker (update_metrics metric) (snd s))
           in (foldl (\<lambda>st (k, v). append_logs (m @ ''/'' @ k) v st) s1 metric, None)))"

definition reset :: "tstate \<Rightarrow> tstate" where
  "reset s =
     (let t = fst s;
          t1 = t\<lparr>max_epochs := 0\<rparr>;
          t2 = t1\<lparr>current_epoch := 0\<rparr>;
          t3 = t2\<lparr>steps_per_epoch := None\<rparr>;
          (r1, h1) = alloc TrackingValues (snd s);
          t4 = t3\<lparr>train := r1\<rparr>;
          (r2, h2) = alloc TrackingValues h1;
          t5 = t4\<lparr>val := r2\<rparr>
      in (t5\<lparr>logs := []\<rparr>, h2))"

text \<open>
  What a reader of the tracker observes: the counters, the two bundles behind the
  references, and the logs (references themselves are not observable values).
\<close>

definition observe :: "tstate \<Rightarrow> int \<times> int \<times> int option \<times> tracking_values \<times> tracking_values \<times> log_record list" where
  "observe s =
     (max_epochs (fst s), current_epoch (fst s), steps_per_epoch (fst s),
      objs (snd s) (train (fst s)), objs (snd s) (val (fst s)), logs (fst s))"












section \<open>The callback runner\<close>

text \<open>
  The lifecycle hooks \<open>on_<name>_start\<close> and \<open>on_<name>_end\<close>, for the names
  fit, epoch, train_epoch, val_epoch, train_step, val_step and forward.
\<close>

datatype event_name = Fit | Epoch | Train_epoch | Val_epoch | Train_step | Val_step | Forward

datatype hook = Start event_name | End event_name

abbreviation "on_fit_start \<equiv> Start Fit"
abbreviation "on_fit_end \<equiv> End Fit"
abbreviation "on_epoch_start \<equiv> Start Epoch"
abbreviation "on_epoch_end \<equiv> End Epoch"
abbreviation "on_train_epoch_start \<equiv> Start Train_epoch"
abbreviation "on_train_epoch_end \<equiv> End Train_epoch"
abbreviation "on_val_epoch_start \<equiv> Start Val_epoch"
abbreviation "on_val_epoch_end \<equiv> End Val_epoch"
abbreviation "on_train_step_start \<equiv> Start Train_step"
abbreviation "on_train_step_end \<equiv> End Train_step"
abbreviation "on_val_step_start \<equiv> Start Val_step"
abbreviation "on_val_step_end \<equiv> End Val_step"
abbreviation "on_forward_start \<equiv> Start Forward"
abbreviation "on_forward_end \<equiv> End Forward"

text \<open>What \<open>step\<close> returns: \<open>{"loss": loss, "metrics": metrics}\<close>.\<close>

record outputs =
  out_loss :: real
  out_metrics :: "(string \<times> real) list"

text \<open>
  A callback object: given the hook and its payload (\<open>data=batch, outputs=outputs\<close> on
  the step-end hooks), it may update the tracker and may raise.
\<close>

type_synonym 'b callback = "hook \<Rightarrow> ('b \<times> outputs) option \<Rightarrow> tstate \<Rightarrow> tstate \<times> exn option"

text \<open>
  The call log of a run, in order: each dispatch of a hook with the tracker's
  \<open>current_epoch\<close> at that moment, each call of \<open>train_step\<close> and \<open>val_step\<close> with
  its batch, each \<open>clean()\<close>, each line sent to the logger. Callbacks cannot write it.
\<close>

datatype 'b event =
    Fired hook int
  | Called_train_step 'b
  | Called_val_step 'b
  | Cleaned
  | Logged string

record 'b world =
  tracker :: tracker
  heap :: heap
  trace :: "'b event list"

type_synonym 'b proc = "'b world \<Rightarrow> 'b world \<times> exn option"

text \<open>Two statements in sequence: the second runs only if the first did not raise.\<close>

definition then_do :: "'b proc \<Rightarrow> 'b proc \<Rightarrow> 'b proc" where
  "then_do p q w = (case p w of (w', None) \<Rightarrow> q w' | (w', Some e) \<Rightarrow> (w', Some e))"

text \<open>Collaborators outside the sources, taken as parameters; each returns or raises.\<close>

record 'b learner =
  fetch_inputs :: "'b \<Rightarrow> exn + 'b"
  fetch_target :: "'b \<Rightarrow> exn + 'b"
  forward :: "'b \<Rightarrow> exn + 'b"
  loss_fn :: "'b \<Rightarrow> 'b \<Rightarrow> exn + real"
  calculate_metrics :: "'b \<Rightarrow> 'b \<Rightarrow> exn + (string \<times> real) list"

text \<open>
  The dataset collaborator: a data loader is the list of the batches it yields, the
  validation loader is optional, and \<open>prepare_data\<close> is the outcome of its hook
  (\<open>None\<close> when it returns).
\<close>

record 'b autodataset =
  train_dataloader :: "'b list"
  val_dataloader :: "'b list option"
  prepare_data :: "exn option"

text \<open>
  The attributes of \<open>Model\<close> that a run reads: the class constant \<open>TEST\<close>, the
  \<open>_compiled\<close> flag, the learner, the bound dataset, and the callbacks registered with
  the runner. The tracker it owns lives in the \<open>world\<close>.
\<close>

record 'b model =
  TEST :: bool
  compiled :: bool
  learner :: "'b learner"
  autodataset :: "'b autodataset option"
  callbacks :: "'b callback list"

text \<open>
  Modelled from the spec: the dispatch methods of \<open>CallbackRunner\<close> (its class is not
  part of the sources). A hook is broadcast to every registered callback in registration
  order; a callback that raises aborts the broadcast and the exception propagates.
\<close>

fun run_callbacks :: "'b callback list \<Rightarrow> hook \<Rightarrow> ('b \<times> outputs) option \<Rightarrow> tstate \<Rightarrow> tstate \<times> exn option" where
  "run_callbacks [] h p s = (s, None)"
| "run_callbacks (c # cs) h p s =
     (case c h p s of (s', None) \<Rightarrow> run_callbacks cs h p s' | (s', Some e) \<Rightarrow> (s', Some e))"

definition on_event :: "'b model \<Rightarrow> hook \<Rightarrow> ('b \<times> outputs) option \<Rightarrow> 'b proc" where
  "on_event m h p w =
     (case run_callbacks (callbacks m) h p (tracker w, heap w) of
        ((t, hp), r) \<Rightarrow>
          (\<lparr>tracker = t, heap = hp, trace = trace w @ [Fired h (current_epoch (tracker w))]\<rparr>, r))"

text \<open>
  Modelled from the spec: \<open>with_event(name, body, cancel_signal)\<close> executes
  \<open>on_{name}_start\<close>, runs \<open>body()\<close>, executes \<open>on_{name}_end\<close>; if \<open>body\<close> raises
  \<open>cancel_signal\<close> the exception is swallowed after still running \<open>on_{name}_end\<close>.
  Any other exception propagates.
\<close>

definition with_event :: "'b model \<Rightarrow> event_name \<Rightarrow> 'b proc \<Rightarrow> exn \<Rightarrow> 'b proc" where
  "with_event m name body cancel_signal w =
     (case on_event m (Start name) None w of
        (w1, Some e) \<Rightarrow> (w1, Some e)
      | (w1, None) \<Rightarrow>
          (case body w1 of
             (w2, None) \<Rightarrow> on_event m (End name) None w2
           | (w2, Some e) \<Rightarrow>
               if e = cancel_signal then on_event m (End name) None w2 else (w2, Some e)))"

text \<open>
  Modelled from the spec: \<open>clean()\<close>, the teardown of the runner; it is expected not to
  raise. The call is entered in the call log.
\<close>

definition clean :: "'b world \<Rightarrow> 'b world" where
  "clean w = w\<lparr>trace := trace w @ [Cleaned]\<rparr>"

definition logger_info :: "string \<Rightarrow> 'b world \<Rightarrow> 'b world" where
  "logger_info msg w = w\<lparr>trace := trace w @ [Logged msg]\<rparr>"

section \<open>\<open>Model\<close>: the execution engine\<close>

definition forward_once :: "'b model \<Rightarrow> 'b \<Rightarrow> 'b world \<Rightarrow> 'b world \<times> (exn + 'b)" where
  "forward_once m x w =
     (case on_event m on_forward_start None w of
        (w1, Some e) \<Rightarrow> (w1, Inl e)
      | (w1, None) \<Rightarrow>
          (case forward (learner m) x of
             Inl e \<Rightarrow> (w1, Inl e)
           | Inr x' \<Rightarrow>
               (case on_event m on_forward_end None w1 of
                  (w2, Some e) \<Rightarrow> (w2, Inl e)
                | (w2, None) \<Rightarrow> (w2, Inr x'))))"

definition step :: "'b model \<Rightarrow> 'b \<Rightarrow> 'b world \<Rightarrow> 'b world \<times> (exn + outputs)" where
  "step m batch w =
     (case fetch_inputs (learner m) batch of
        Inl e \<Rightarrow> (w, Inl e)
      | Inr inputs \<Rightarrow>
     (case fetch_target (learner m) batch of
        Inl e \<Rightarrow> (w, Inl e)
      | Inr target \<Rightarrow>
     (case forward_once m inputs w of
        (w1, Inl e) \<Rightarrow> (w1, Inl e)
      | (w1, Inr logits) \<Rightarrow>
     (case loss_fn (learner m) logits target of
        Inl e \<Rightarrow> (w1, Inl e)
      | Inr l \<Rightarrow>
     (case calculate_metrics (learner m) logits target of
        Inl e \<Rightarrow> (w1, Inl e)
      | Inr ms \<Rightarrow> (w1, Inr \<lparr>out_loss = l, out_metrics = ms\<rparr>))))))"

definition train_step :: "'b model \<Rightarrow> 'b \<Rightarrow> 'b world \<Rightarrow> 'b world \<times> (exn + outputs)" where
  "train_step m batch w = step m batch (w\<lparr>trace := trace w @ [Called_train_step batch]\<rparr>)"

definition val_step :: "'b model \<Rightarrow> 'b \<Rightarrow> 'b world \<Rightarrow> 'b world \<times> (exn + outputs)" where
  "val_step m batch w = step m batch (w\<lparr>trace := trace w @ [Called_val_step batch]\<rparr>)"

text \<open>\<open>tracker.train.steps = step\<close> and \<open>tracker.val.steps = step\<close>.\<close>

definition set_train_steps :: "nat \<Rightarrow> 'b world \<Rightarrow> 'b world" where
  "set_train_steps i w = w\<lparr>heap := modify (train (tracker w)) (\<lambda>tv. tv\<lparr>steps := Some i\<rparr>) (heap w)\<rparr>"

definition set_val_steps :: "nat \<Rightarrow> 'b world \<Rightarrow> 'b world" where
  "set_val_steps i w = w\<lparr>heap := modify (val (tracker w)) (\<lambda>tv. tv\<lparr>steps := Some i\<rparr>) (heap w)\<rparr>"

text \<open>
  The guard \<open>steps_per_epoch and step >= steps_per_epoch\<close>: \<open>None\<close> and \<open>0\<close> are
  falsy, so the comparison is made for a non-zero integer only.
\<close>

definition reached :: "int option \<Rightarrow> nat \<Rightarrow> bool" where
  "reached spe i = (case spe of None \<Rightarrow> False | Some n \<Rightarrow> n \<noteq> 0 \<and> n \<le> int i)"

text \<open>
  The batch loop of \<open>train_one_epoch\<close>: \<open>i\<close> is the index \<open>enumerate\<close> gives the first
  batch of the list.
\<close>

fun train_loop :: "'b model \<Rightarrow> int option \<Rightarrow> nat \<Rightarrow> 'b list \<Rightarrow> 'b proc" where
  "train_loop m spe i [] w = (w, None)"
| "train_loop m spe i (batch # rest) w =
     (case on_event m on_train_step_start None (set_train_steps i w) of
        (w1, Some e) \<Rightarrow> (w1, Some e)
      | (w1, None) \<Rightarrow>
     (case train_step m batch w1 of
        (w2, Inl e) \<Rightarrow> (w2, Some e)
      | (w2, Inr outs) \<Rightarrow>
     (case on_event m on_train_step_end (Some (batch, outs)) w2 of
        (w3, Some e) \<Rightarrow> (w3, Some e)
      | (w3, None) \<Rightarrow>
          if TEST m then (w3, None)
          else if reached spe i then (w3, None)
          else train_loop m spe (Suc i) rest w3)))"

definition train_one_epoch :: "'b model \<Rightarrow> 'b list \<Rightarrow> 'b proc" where
  "train_one_epoch m dl w = train_loop m (steps_per_epoch (tracker w)) 0 dl w"

fun val_loop :: "'b model \<Rightarrow> nat \<Rightarrow> 'b list \<Rightarrow> 'b proc" where
  "val_loop m i [] w = (w, None)"
| "val_loop m i (batch # rest) w =
     (case on_event m on_val_step_start None (set_val_steps i w) of
        (w1, Some e) \<Rightarrow> (w1, Some e)
      | (w1, None) \<Rightarrow>
     (case val_step m batch w1 of
        (w2, Inl e) \<Rightarrow> (w2, Some e)
      | (w2, Inr outs) \<Rightarrow>
     (case on_event m on_val_step_end (Some (batch, outs)) w2 of
        (w3, Some e) \<Rightarrow> (w3, Some e)
      | (w3, None) \<Rightarrow>
          if TEST m then (w3, None) else val_loop m (Suc i) rest w3)))"

definition val_one_epoch :: "'b model \<Rightarrow> 'b list \<Rightarrow> 'b proc" where
  "val_one_epoch m dl w = val_loop m 0 dl w"

definition train_epoch_with_event :: "'b model \<Rightarrow> 'b proc" where
  "train_epoch_with_event m w =
     (case autodataset m of
        None \<Rightarrow> (w, Some AttributeError)
      | Some ds \<Rightarrow>
          then_do (on_event m on_train_epoch_start None)
            (then_do (train_one_epoch m (train_dataloader ds))
               (on_event m on_train_epoch_end None)) w)"

text \<open>\<open>not autodataset.val_dataloader\<close>: a missing loader and an empty one are falsy.\<close>

definition val_epoch_with_event :: "'b model \<Rightarrow> 'b proc" where
  "val_epoch_with_event m w =
     (case autodataset m of
        None \<Rightarrow> (w, Some AttributeError)
      | Some ds \<Rightarrow>
          (case val_dataloader ds of
             None \<Rightarrow> (w, None)
           | Some dl \<Rightarrow>
               if dl = [] then (w, None)
               else then_do (on_event m on_val_epoch_start None)
                      (then_do (val_one_epoch m dl) (on_event m on_val_epoch_end None)) w))"

text \<open>The body of the loop of \<open>epoch\<close>, up to the test of \<open>TEST\<close>.\<close>

definition epoch_body :: "'b model \<Rightarrow> int \<Rightarrow> 'b proc" where
  "epoch_body m e w =
     then_do (on_event m on_epoch_start None)
       (then_do (train_epoch_with_event m)
          (then_do (val_epoch_with_event m) (on_event m on_epoch_end None)))
       (w\<lparr>tracker := (tracker w)\<lparr>current_epoch := e\<rparr>\<rparr>)"

fun epoch_loop :: "'b model \<Rightarrow> int list \<Rightarrow> 'b proc" where
  "epoch_loop m [] w = (w, None)"
| "epoch_loop m (e # es) w =
     (case epoch_body m e w of
        (w1, Some x) \<Rightarrow> (w1, Some x)
      | (w1, None) \<Rightarrow> if TEST m then (w1, None) else epoch_loop m es w1)"

text \<open>\<open>range(current_epoch, max_epochs)\<close> is fixed when the loop is entered.\<close>

definition epoch :: "'b model \<Rightarrow> 'b proc" where
  "epoch m w = epoch_loop m [current_epoch (tracker w) .. max_epochs (tracker w) - 1] w"

definition fit_with_event :: "'b model \<Rightarrow> 'b proc" where
  "fit_with_event m =
     then_do (on_event m on_fit_start None)
       (then_do (with_event m Epoch (epoch m) EpochCancel)
          (on_event m on_fit_end None))"

text \<open>
  The arguments of \<open>fit\<close>. \<open>progress\<close> is the \<open>ProgressCallback(self, progress_kwargs)\<close>
  that \<open>show_progress\<close> registers; \<open>callbacks_arg\<close> is \<open>listify(callbacks)\<close>.
\<close>

record 'b fit_args =
  autodataset_arg :: "'b autodataset"
  max_epochs_arg :: int
  steps_per_epoch_arg :: "int option"
  callbacks_arg :: "'b callback list"
  resume :: bool
  show_progress :: bool
  progress :: "'b callback"

text \<open>
  The statements of \<open>fit\<close> before its \<open>try\<close>: \<open>assert_compiled\<close>, binding and preparing
  the dataset, the reset when \<open>resume\<close> is off, the registration of the callbacks, and
  the two assignments to the tracker.
\<close>

definition fit_setup :: "'b fit_args \<Rightarrow> 'b model \<Rightarrow> 'b world \<Rightarrow> ('b model \<times> 'b world) \<times> exn option" where
  "fit_setup a m w =
     (if \<not> compiled m then ((m, w), Some ConfigurationError)
      else
        (let m1 = m\<lparr>autodataset := Some (autodataset_arg a)\<rparr> in
         case prepare_data (autodataset_arg a) of
           Some e \<Rightarrow> ((m1, w), Some e)
         | None \<Rightarrow>
             (let w1 = (if \<not> resume a
                        then (case reset (tracker w, heap w) of (t, h) \<Rightarrow> w\<lparr>tracker := t, heap := h\<rparr>)
                        else w);
                  m2 = (if show_progress a then m1\<lparr>callbacks := callbacks m1 @ [progress a]\<rparr> else m1);
                  m3 = foldl (\<lambda>mm callback. mm\<lparr>callbacks := callbacks mm @ [callback]\<rparr>) m2 (callbacks_arg a);
                  w2 = w1\<lparr>tracker := (tracker w1)\<lparr>steps_per_epoch := steps_per_epoch_arg a\<rparr>\<rparr>;
                  w3 = w2\<lparr>tracker := (tracker w2)\<lparr>max_epochs := max_epochs_arg a\<rparr>\<rparr>
              in ((m3, w3), None))))"

text \<open>
  The \<open>try\<close> statement of \<open>fit\<close>: the fit scope, the handler of \<open>KeyboardInterrupt\<close>,
  and \<open>clean()\<close> in the \<open>finally\<close> clause.
\<close>

definition fit_try :: "'b model \<Rightarrow> 'b proc" where
  "fit_try m w =
     (case with_event m Fit (fit_with_event m) FitCancel w of
        (w1, None) \<Rightarrow> (clean w1, None)
      | (w1, Some e) \<Rightarrow>
          if e = KeyboardInterrupt
          then (clean (logger_info ''Keyboard interruption detected'' w1), None)
          else (clean w1, Some e))"

definition fit :: "'b fit_args \<Rightarrow> 'b model \<Rightarrow> 'b world \<Rightarrow> ('b model \<times> 'b world) \<times> exn option" where
  "fit a m w =
     (case fit_setup a m w of
        (mw, Some e) \<Rightarrow> (mw, Some e)
      | ((m', w'), None) \<Rightarrow> (case fit_try m' w' of (w1, r) \<Rightarrow> ((m', w1), r)))"

section \<open>Reading the call log\<close>

text \<open>The batches \<open>train_step\<close> was called with, in order.\<close>

fun train_step_calls :: "'b event list \<Rightarrow> 'b list" where
  "train_step_calls [] = []"
| "train_step_calls (Called_train_step b # tr) = b # train_step_calls tr"
| "train_step_calls (_ # tr) = train_step_calls tr"

text \<open>The dispatches of one hook, each with the \<open>current_epoch\<close> it saw.\<close>

fun fired :: "hook \<Rightarrow> 'b event list \<Rightarrow> int list" where
  "fired h [] = []"
| "fired h (Fired h' ce # tr) = (if h' = h then ce # fired h tr else fired h tr)"
| "fired h (_ # tr) = fired h tr"

fun name_of :: "hook \<Rightarrow> event_name" where
  "name_of (Start n) = n"
| "name_of (End n) = n"

text \<open>The hooks of the given names, in the order they were dispatched.\<close>

fun hooks_fired :: "event_name set \<Rightarrow> 'b event list \<Rightarrow> hook list" where
  "hooks_fired N [] = []"
| "hooks_fired N (Fired h ce # tr) = (if name_of h \<in> N then h # hooks_fired N tr else hooks_fired N tr)"
| "hooks_fired N (_ # tr) = hooks_fired N tr"

text \<open>What was entered in the call log between two states of a run.\<close>

definition new_events :: "'b world \<Rightarrow> 'b world \<Rightarrow> 'b event list" where
  "new_events w w' = drop (length (trace w)) (trace w')"

text \<open>
  An entry that belongs to the given names: a hook of one of them, or a step call when
  the step's name is among them. \<open>emits N w w'\<close>: the log of \<open>w'\<close> extends the log of
  \<open>w\<close> by such entries only.
\<close>

fun only :: "event_name set \<Rightarrow> 'b event \<Rightarrow> bool" where
  "only N (Fired h _) = (name_of h \<in> N)"
| "only N (Called_train_step _) = (Train_step \<in> N)"
| "only N (Called_val_step _) = (Val_step \<in> N)"
| "only N Cleaned = False"
| "only N (Logged _) = False"

definition emits :: "event_name set \<Rightarrow> 'b world \<Rightarrow> 'b world \<Rightarrow> bool" where
  "emits N w w' = (\<exists>xs. trace w' = trace w @ xs \<and> list_all (only N) xs)"

text \<open>
  The batches a run of the batch loop gets to, read off the loop's guard alone: the
  loop leaves after the batch at which the guard holds.
\<close>

fun executed :: "int option \<Rightarrow> nat \<Rightarrow> 'b list \<Rightarrow> 'b list" where
  "executed spe i [] = []"
| "executed spe i (b # bs) = b # (if reached spe i then [] else executed spe (Suc i) bs)"

text \<open>
  A callback that never raises and leaves the three counters of the tracker alone; a
  learner whose collaborators always return.
\<close>

definition quiet :: "'b callback \<Rightarrow> bool" where
  "quiet c = (\<forall>h p s. snd (c h p s) = None
                \<and> steps_per_epoch (fst (fst (c h p s))) = steps_per_epoch (fst s)
                \<and> max_epochs (fst (fst (c h p s))) = max_epochs (fst s)
                \<and> current_epoch (fst (fst (c h p s))) = current_epoch (fst s))"

definition returns :: "'b learner \<Rightarrow> bool" where
  "returns l = (\<forall>x y. (\<exists>v. fetch_inputs l x = Inr v) \<and> (\<exists>v. fetch_target l x = Inr v)
                  \<and> (\<exists>v. forward l x = Inr v) \<and> (\<exists>v. loss_fn l x y = Inr v)
                  \<and> (\<exists>v. calculate_metrics l x y = Inr v))"

text \<open>
  A procedure that, from the given state, returns without raising, leaves
  \<open>steps_per_epoch\<close> and \<open>max_epochs\<close> as they were, and calls \<open>train_step\<close> on exactly
  the given batches.
\<close>

definition normal :: "'b proc \<Rightarrow> 'b world \<Rightarrow> 'b list \<Rightarrow> bool" where
  "normal p w bs =
     (snd (p w) = None
      \<and> steps_per_epoch (tracker (fst (p w))) = steps_per_epoch (tracker w)
      \<and> max_epochs (tracker (fst (p w))) = max_epochs (tracker w)
      \<and> (\<exists>xs. trace (fst (p w)) = trace w @ xs \<and> train_step_calls xs = bs))"

section \<open>Example configurations\<close>

text \<open>
  A tracker as \<open>Tracker()\<close> leaves it, its two bundles at references 0 and 1; a learner
  whose collaborators all succeed; a dataset without validation loader; a compiled model
  with \<open>TEST\<close> off.
\<close>

definition tracker0 :: tracker where
  "tracker0 = \<lparr>max_epochs = 0, current_epoch = 0, steps_per_epoch = None, train = 0, val = 1, logs = []\<rparr>"

definition heap0 :: heap where
  "heap0 = \<lparr>objs = (\<lambda>_. TrackingValues), next_ref = 2\<rparr>"

definition world0 :: "nat world" where
  "world0 = \<lparr>tracker = tracker0, heap = heap0, trace = []\<rparr>"

definition learner0 :: "nat learner" where
  "learner0 = \<lparr>fetch_inputs = Inr, fetch_target = Inr, forward = Inr,
                loss_fn = (\<lambda>logits target. Inr 0), calculate_metrics = (\<lambda>logits target. Inr [])\<rparr>"

definition dataset0 :: "nat list \<Rightarrow> nat autodataset" where
  "dataset0 dl = \<lparr>train_dataloader = dl, val_dataloader = None, prepare_data = None\<rparr>"

definition model0 :: "nat callback list \<Rightarrow> nat list \<Rightarrow> nat model" where
  "model0 cbs dl = \<lparr>TEST = False, compiled = True, learner = learner0,
                     autodataset = Some (dataset0 dl), callbacks = cbs\<rparr>"

text \<open>A callback that does nothing, and the arguments of a plain call of \<open>fit\<close>.\<close>

definition idle :: "nat callback" where
  "idle h p s = (s, None)"

definition args0 :: "nat list \<Rightarrow> int \<Rightarrow> int option \<Rightarrow> bool \<Rightarrow> nat fit_args" where
  "args0 dl n spe res = \<lparr>autodataset_arg = dataset0 dl, max_epochs_arg = n, steps_per_epoch_arg = spe,
                          callbacks_arg = [], resume = res, show_progress = False, progress = idle\<rparr>"

text \<open>
  A callback that raises the epoch-cancellation sentinel on \<open>on_train_step_end\<close> while
  the tracker is in its first epoch, and does nothing otherwise.
\<close>

definition cancel_first_epoch :: "nat callback" where
  "cancel_first_epoch h p s =
     (if h = on_train_step_end \<and> current_epoch (fst s) = 0 then (s, Some EpochCancel) else (s, None))"

text \<open>A callback that is interrupted from the keyboard at the first train step.\<close>

definition interrupting :: "nat callback" where
  "interrupting h p s = (if h = on_train_step_start then (s, Some KeyboardInterrupt) else (s, None))"

text \<open>A tracker as a first run of three epochs leaves it, with one log record.\<close>

definition tracker1 :: tracker where
  "tracker1 = tracker0\<lparr>max_epochs := 3, current_epoch := 2,
                       logs := [\<lparr>log_epoch = 2, log_key = ''train/loss'', log_value = 1 / 4\<rparr>]\<rparr>"


text \<open>The same, in the second epoch.\<close>

definition cancel_second_epoch :: "nat callback" where
  "cancel_second_epoch h p s =
     (if h = on_train_step_end \<and> current_epoch (fst s) = 1 then (s, Some EpochCancel) else (s, None))"





section \<open>The call log only grows\<close>

lemma train_step_calls_append: "train_step_calls (xs @ ys) = train_step_calls xs @ train_step_calls ys"
  by (induction xs rule: train_step_calls.induct) auto

lemma fired_append: "fired h (xs @ ys) = fired h xs @ fired h ys"
  by (induction h xs rule: fired.induct) auto

lemma hooks_fired_append: "hooks_fired N (xs @ ys) = hooks_fired N xs @ hooks_fired N ys"
  by (induction N xs rule: hooks_fired.induct) auto

lemma emits_refl: "emits N w w"
  by (simp add: emits_def)

lemma emits_trans: "emits N w w1 \<Longrightarrow> emits N w1 w2 \<Longrightarrow> emits N w w2"
  by (auto simp: emits_def)

lemma on_event_trace:
  "trace (fst (on_event m h p w)) = trace w @ [Fired h (current_epoch (tracker w))]"
  by (simp add: on_event_def split: prod.splits)

lemma emits_on_event: "on_event m h p w = (w', r) \<Longrightarrow> name_of h \<in> N \<Longrightarrow> emits N w w'"
  using on_event_trace [of m h p w] by (simp add: emits_def)

lemma emits_then_do:
  assumes "then_do p q w = (w', r)"
      and "\<And>w w1 r1. p w = (w1, r1) \<Longrightarrow> emits N w w1"
      and "\<And>w w1 r1. q w = (w1, r1) \<Longrightarrow> emits N w w1"
  shows "emits N w w'"
proof (cases "p w")
  case (Pair w1 r1)
  have 1: "emits N w w1" using assms(2) Pair by blast
  show ?thesis
  proof (cases r1)
    case None
    then have "q w1 = (w', r)" using Pair assms(1) by (simp add: then_do_def)
    then have "emits N w1 w'" using assms(3) by blast
    then show ?thesis using 1 emits_trans by blast
  next
    case (Some e)
    then show ?thesis using Pair 1 assms(1) by (simp add: then_do_def)
  qed
qed

lemma emits_forward_once:
  assumes "forward_once m x w = (w', r)" and N: "Forward \<in> N"
  shows "emits N w w'"
proof -
  obtain w1 r1 where 1: "on_event m on_forward_start None w = (w1, r1)" by force
  obtain w2 r2 where 2: "on_event m on_forward_end None w1 = (w2, r2)" by force
  have e1: "emits N w w1" using emits_on_event [OF 1] N by simp
  have e2: "emits N w1 w2" using emits_on_event [OF 2] N by simp
  have e3: "emits N w w2" using e1 e2 by (rule emits_trans)
  show ?thesis using assms(1) 1 2 e1 e3
    by (auto simp: forward_once_def split: option.splits sum.splits)
qed

lemma emits_step:
  assumes "step m b w = (w', r)" and N: "Forward \<in> N"
  shows "emits N w w'"
  using assms emits_forward_once [of m _ w _ _ N]
  by (auto simp: step_def emits_refl split: sum.splits prod.splits)

lemma emits_train_step:
  assumes "train_step m b w = (w', r)" and "Forward \<in> N" and "Train_step \<in> N"
  shows "emits N w w'"
proof -
  have "emits N (w\<lparr>trace := trace w @ [Called_train_step b]\<rparr>) w'"
    using assms emits_step by (fastforce simp: train_step_def)
  then show ?thesis using assms(3) by (auto simp: emits_def)
qed

lemma emits_val_step:
  assumes "val_step m b w = (w', r)" and "Forward \<in> N" and "Val_step \<in> N"
  shows "emits N w w'"
proof -
  have "emits N (w\<lparr>trace := trace w @ [Called_val_step b]\<rparr>) w'"
    using assms emits_step by (fastforce simp: val_step_def)
  then show ?thesis using assms(3) by (auto simp: emits_def)
qed

lemma emits_set_train_steps: "emits N (set_train_steps i w) w' \<Longrightarrow> emits N w w'"
  by (simp add: emits_def set_train_steps_def)

lemma emits_set_val_steps: "emits N (set_val_steps i w) w' \<Longrightarrow> emits N w w'"
  by (simp add: emits_def set_val_steps_def)

lemma emits_train_loop:
  assumes "Forward \<in> N" and "Train_step \<in> N"
  shows "train_loop m spe i dl w = (w', r) \<Longrightarrow> emits N w w'"
proof (induction dl arbitrary: i w)
  case Nil
  then show ?case by (simp add: emits_refl)
next
  case (Cons b rest)
  obtain w1 r1 where 1: "on_event m on_train_step_start None (set_train_steps i w) = (w1, r1)" by force
  obtain w2 r2 where 2: "train_step m b w1 = (w2, r2)" by force
  have "emits N (set_train_steps i w) w1" using emits_on_event [OF 1] assms by simp
  then have e1: "emits N w w1" by (rule emits_set_train_steps)
  have e2: "emits N w w2" using e1 emits_train_step [OF 2] assms emits_trans by blast
  show ?case
  proof (cases r1)
    case (Some e)
    then show ?thesis using Cons.prems 1 e1 by simp
  next
    case None
    note r1 = this
    show ?thesis
    proof (cases r2)
      case (Inl e)
      then show ?thesis using Cons.prems 1 2 r1 e2 by simp
    next
      case (Inr outs)
      obtain w3 r3 where 3: "on_event m on_train_step_end (Some (b, outs)) w2 = (w3, r3)" by force
      have e3: "emits N w w3" using e2 emits_on_event [OF 3] assms emits_trans by force
      show ?thesis
      proof (cases "r3 = None \<and> \<not> TEST m \<and> \<not> reached spe i")
        case True
        then have "train_loop m spe (Suc i) rest w3 = (w', r)"
          using Cons.prems 1 2 3 r1 Inr by simp
        then have "emits N w3 w'" by (rule Cons.IH)
        then show ?thesis using e3 emits_trans by blast
      next
        case False
        then have "w' = w3" using Cons.prems 1 2 3 r1 Inr by (auto split: if_splits option.splits)
        then show ?thesis using e3 by simp
      qed
    qed
  qed
qed


lemma emits_val_loop:
  assumes "Forward \<in> N" and "Val_step \<in> N"
  shows "val_loop m i dl w = (w', r) \<Longrightarrow> emits N w w'"
proof (induction dl arbitrary: i w)
  case Nil
  then show ?case by (simp add: emits_refl)
next
  case (Cons b rest)
  obtain w1 r1 where 1: "on_event m on_val_step_start None (set_val_steps i w) = (w1, r1)" by force
  obtain w2 r2 where 2: "val_step m b w1 = (w2, r2)" by force
  have "emits N (set_val_steps i w) w1" using emits_on_event [OF 1] assms by simp
  then have e1: "emits N w w1" by (rule emits_set_val_steps)
  have e2: "emits N w w2" using e1 emits_val_step [OF 2] assms emits_trans by blast
  show ?case
  proof (cases r1)
    case (Some e)
    then show ?thesis using Cons.prems 1 e1 by simp
  next
    case None
    note r1 = this
    show ?thesis
    proof (cases r2)
      case (Inl e)
      then show ?thesis using Cons.prems 1 2 r1 e2 by simp
    next
      case (Inr outs)
      obtain w3 r3 where 3: "on_event m on_val_step_end (Some (b, outs)) w2 = (w3, r3)" by force
      have e3: "emits N w w3" using e2 emits_on_event [OF 3] assms emits_trans by force
      show ?thesis
      proof (cases "r3 = None \<and> \<not> TEST m")
        case True
        then have "val_loop m (Suc i) rest w3 = (w', r)"
          using Cons.prems 1 2 3 r1 Inr by simp
        then have "emits N w3 w'" by (rule Cons.IH)
        then show ?thesis using e3 emits_trans by blast
      next
        case False
        then have "w' = w3" using Cons.prems 1 2 3 r1 Inr by (auto split: if_splits option.splits)
        then show ?thesis using e3 by simp
      qed
    qed
  qed
qed

lemma emits_train_epoch:
  assumes "train_epoch_with_event m w = (w', r)" and N: "Forward \<in> N" "Train_step \<in> N" "Train_epoch \<in> N"
  shows "emits N w w'"
proof (cases "autodataset m")
  case None
  then show ?thesis using assms(1) by (simp add: train_epoch_with_event_def emits_refl)
next
  case (Some ds)
  have a: "\<And>w w1 r1. train_one_epoch m (train_dataloader ds) w = (w1, r1) \<Longrightarrow> emits N w w1"
    unfolding train_one_epoch_def using emits_train_loop N by blast
  have b: "\<And>h w w1 r1. on_event m h None w = (w1, r1) \<Longrightarrow> name_of h = Train_epoch \<Longrightarrow> emits N w w1"
    using emits_on_event N by metis
  have c: "\<And>w w1 r1. then_do (train_one_epoch m (train_dataloader ds)) (on_event m on_train_epoch_end None) w = (w1, r1) \<Longrightarrow> emits N w w1"
    by (erule emits_then_do) (auto intro: a b)
  have "then_do (on_event m on_train_epoch_start None)
            (then_do (train_one_epoch m (train_dataloader ds))
               (on_event m on_train_epoch_end None)) w = (w', r)"
    using assms(1) Some by (simp add: train_epoch_with_event_def)
  then show ?thesis
    by (rule emits_then_do) (auto intro: b c)
qed

lemma emits_val_epoch:
  assumes "val_epoch_with_event m w = (w', r)" and N: "Forward \<in> N" "Val_step \<in> N" "Val_epoch \<in> N"
  shows "emits N w w'"
proof (cases "\<exists>ds dl. autodataset m = Some ds \<and> val_dataloader ds = Some dl \<and> dl \<noteq> []")
  case False
  then have "w' = w" using assms(1)
    by (auto simp: val_epoch_with_event_def split: option.splits if_splits)
  then show ?thesis by (simp add: emits_refl)
next
  case True
  then obtain ds dl where ds: "autodataset m = Some ds" "val_dataloader ds = Some dl" "dl \<noteq> []" by blast
  have a: "\<And>w w1 r1. val_one_epoch m dl w = (w1, r1) \<Longrightarrow> emits N w w1"
    unfolding val_one_epoch_def using emits_val_loop N by blast
  have b: "\<And>h w w1 r1. on_event m h None w = (w1, r1) \<Longrightarrow> name_of h = Val_epoch \<Longrightarrow> emits N w w1"
    using emits_on_event N by metis
  have c: "\<And>w w1 r1. then_do (val_one_epoch m dl) (on_event m on_val_epoch_end None) w = (w1, r1) \<Longrightarrow> emits N w w1"
    by (erule emits_then_do) (auto intro: a b)
  have "then_do (on_event m on_val_epoch_start None)
            (then_do (val_one_epoch m dl) (on_event m on_val_epoch_end None)) w = (w', r)"
    using assms(1) ds by (simp add: val_epoch_with_event_def)
  then show ?thesis
    by (rule emits_then_do) (auto intro: b c)
qed

lemma only_no_hooks: "list_all (only N) xs \<Longrightarrow> N \<inter> M = {} \<Longrightarrow> hooks_fired M xs = []"
  by (induction M xs rule: hooks_fired.induct) auto

lemma only_no_fired: "list_all (only N) xs \<Longrightarrow> name_of h \<notin> N \<Longrightarrow> fired h xs = []"
  by (induction h xs rule: fired.induct) auto

lemma only_no_train_calls: "list_all (only N) xs \<Longrightarrow> Train_step \<notin> N \<Longrightarrow> train_step_calls xs = []"
  by (induction xs rule: train_step_calls.induct) auto

lemma only_no_clean: "list_all (only N) xs \<Longrightarrow> count_list xs Cleaned = 0"
  by (induction xs) auto

lemma emits_UNIV_on_event: "on_event m h p w = (w', r) \<Longrightarrow> emits UNIV w w'"
  by (erule emits_on_event) simp

lemma emits_epoch_body:
  assumes "epoch_body m e w = (w', r)"
  shows "emits UNIV w w'"
proof -
  let ?w0 = "w\<lparr>tracker := (tracker w)\<lparr>current_epoch := e\<rparr>\<rparr>"
  have c: "\<And>w w1 r1. then_do (val_epoch_with_event m) (on_event m on_epoch_end None) w = (w1, r1) \<Longrightarrow> emits UNIV w w1"
    by (erule emits_then_do) (auto intro: emits_val_epoch emits_UNIV_on_event)
  have b: "\<And>w w1 r1. then_do (train_epoch_with_event m)
          (then_do (val_epoch_with_event m) (on_event m on_epoch_end None)) w = (w1, r1) \<Longrightarrow> emits UNIV w w1"
    by (erule emits_then_do) (auto intro: emits_train_epoch c)
  have "emits UNIV ?w0 w'"
    using assms unfolding epoch_body_def
    by (rule emits_then_do) (auto intro: emits_UNIV_on_event b)
  then show ?thesis by (simp add: emits_def)
qed

lemma emits_epoch_loop: "epoch_loop m es w = (w', r) \<Longrightarrow> emits UNIV w w'"
proof (induction es arbitrary: w)
  case Nil
  then show ?case by (simp add: emits_refl)
next
  case (Cons e es)
  obtain w1 r1 where 1: "epoch_body m e w = (w1, r1)" by force
  have e1: "emits UNIV w w1" using 1 by (rule emits_epoch_body)
  show ?case
  proof (cases "r1 = None \<and> \<not> TEST m")
    case True
    then have "epoch_loop m es w1 = (w', r)" using Cons.prems 1 by simp
    then have "emits UNIV w1 w'" by (rule Cons.IH)
    then show ?thesis using e1 emits_trans by blast
  next
    case False
    then have "w' = w1" using Cons.prems 1 by (auto split: option.splits if_splits)
    then show ?thesis using e1 by simp
  qed
qed

lemma emits_with_event:
  assumes "with_event m name body cancel_signal w = (w', r)"
      and "\<And>w w1 r1. body w = (w1, r1) \<Longrightarrow> emits UNIV w w1"
  shows "emits UNIV w w'"
proof -
  obtain w1 r1 where 1: "on_event m (Start name) None w = (w1, r1)" by force
  obtain w2 r2 where 2: "body w1 = (w2, r2)" by force
  obtain w3 r3 where 3: "on_event m (End name) None w2 = (w3, r3)" by force
  have e1: "emits UNIV w w1" using 1 by (rule emits_UNIV_on_event)
  have e2: "emits UNIV w w2" using e1 assms(2) [OF 2] emits_trans by blast
  have e3: "emits UNIV w w3" using e2 emits_UNIV_on_event [OF 3] emits_trans by blast
  have "w' = w1 \<or> w' = w2 \<or> w' = w3"
    using assms(1) 1 2 3 by (auto simp: with_event_def split: option.splits if_splits)
  then show ?thesis using e1 e2 e3 by blast
qed

lemma emits_fit_with_event:
  assumes "fit_with_event m w = (w', r)"
  shows "emits UNIV w w'"
proof -
  have a: "\<And>w w1 r1. with_event m Epoch (epoch m) EpochCancel w = (w1, r1) \<Longrightarrow> emits UNIV w w1"
    by (erule emits_with_event) (auto simp: epoch_def intro: emits_epoch_loop)
  have b: "\<And>w w1 r1. then_do (with_event m Epoch (epoch m) EpochCancel) (on_event m on_fit_end None) w = (w1, r1)
             \<Longrightarrow> emits UNIV w w1"
    by (erule emits_then_do) (auto intro: a emits_UNIV_on_event)
  show ?thesis
    using assms unfolding fit_with_event_def
    by (rule emits_then_do) (auto intro: b emits_UNIV_on_event)
qed

lemma emits_fit_scope:
  assumes "with_event m Fit (fit_with_event m) FitCancel w = (w', r)"
  shows "emits UNIV w w'"
  using assms by (rule emits_with_event) (rule emits_fit_with_event)

lemma emits_count_clean: "emits N w w' \<Longrightarrow> count_list (trace w') Cleaned = count_list (trace w) Cleaned"
  by (auto simp: emits_def only_no_clean)

lemma fit_setup_trace: "fit_setup a m w = ((m', w'), r) \<Longrightarrow> trace w' = trace w"
  by (auto simp: fit_setup_def Let_def split: if_splits option.splits prod.splits)


section \<open>The call log of the loops\<close>

lemma on_event_new:
  "on_event m h p w = (w', r) \<Longrightarrow> trace w' = trace w @ [Fired h (current_epoch (tracker w))]"
  using on_event_trace [of m h p w] by simp

lemma train_step_trace:
  assumes "train_step m b w = (w', r)"
  shows "\<exists>ys. trace w' = trace w @ Called_train_step b # ys \<and> list_all (only {Forward}) ys"
proof -
  have "emits {Forward} (w\<lparr>trace := trace w @ [Called_train_step b]\<rparr>) w'"
    using assms emits_step by (fastforce simp: train_step_def)
  then show ?thesis by (auto simp: emits_def)
qed

lemma reached_cong_loop:
  "(\<And>j. reached spe j = reached spe' j) \<Longrightarrow> train_loop m spe i dl w = train_loop m spe' i dl w"
  by (induction dl arbitrary: i w) (auto split: prod.splits option.splits sum.splits)

lemma executed_all: "(\<And>j. \<not> reached spe j) \<Longrightarrow> executed spe i dl = dl"
  by (induction dl arbitrary: i) auto

lemma train_loop_calls:
  assumes "\<not> TEST m"
  shows "train_loop m spe i dl w = (w', None) \<Longrightarrow>
         \<exists>xs. trace w' = trace w @ xs \<and> train_step_calls xs = executed spe i dl
            \<and> length (fired on_train_step_start xs) = length (executed spe i dl)
            \<and> length (fired on_train_step_end xs) = length (executed spe i dl)"
proof (induction dl arbitrary: i w)
  case Nil
  then show ?case by simp
next
  case (Cons b rest)
  obtain w1 r1 where 1: "on_event m on_train_step_start None (set_train_steps i w) = (w1, r1)" by force
  obtain w2 r2 where 2: "train_step m b w1 = (w2, r2)" by force
  have r1: "r1 = None" using Cons.prems 1 by (cases r1) auto
  obtain outs where r2: "r2 = Inr outs" using Cons.prems 1 2 r1 by (cases r2) auto
  obtain w3 r3 where 3: "on_event m on_train_step_end (Some (b, outs)) w2 = (w3, r3)" by force
  have r3: "r3 = None" using Cons.prems 1 2 3 r1 r2 by (cases r3) auto
  have t1: "trace w1 = trace w @ [Fired on_train_step_start (current_epoch (tracker w))]"
    using on_event_new [OF 1] by (simp add: set_train_steps_def)
  obtain ys where t2: "trace w2 = trace w1 @ Called_train_step b # ys" and ys: "list_all (only {Forward}) ys"
    using train_step_trace [OF 2] by blast
  have t3: "trace w3 = trace w2 @ [Fired on_train_step_end (current_epoch (tracker w2))]"
    using on_event_new [OF 3] .
  have y1: "train_step_calls ys = []" using ys by (rule only_no_train_calls) simp
  have y2: "fired on_train_step_start ys = []" using ys by (rule only_no_fired) simp
  have y3: "fired on_train_step_end ys = []" using ys by (rule only_no_fired) simp
  show ?case
  proof (cases "reached spe i")
    case True
    then have "w' = w3" using Cons.prems 1 2 3 r1 r2 r3 assms by simp
    then show ?thesis using t1 t2 t3 y1 y2 y3 True
      by (simp add: train_step_calls_append fired_append)
  next
    case False
    then have "train_loop m spe (Suc i) rest w3 = (w', None)"
      using Cons.prems 1 2 3 r1 r2 r3 assms by simp
    from Cons.IH [OF this] obtain xs where
      xs: "trace w' = trace w3 @ xs" "train_step_calls xs = executed spe (Suc i) rest"
          "length (fired on_train_step_start xs) = length (executed spe (Suc i) rest)"
          "length (fired on_train_step_end xs) = length (executed spe (Suc i) rest)"
      by blast
    then show ?thesis using t1 t2 t3 y1 y2 y3 False
      by (simp add: train_step_calls_append fired_append)
  qed
qed

lemma emits_val_epoch_absent:
  assumes "val_epoch_with_event m w = (w', r)"
      and "{Forward, Val_step, Val_epoch} \<subseteq> N \<or> (\<exists>ds. autodataset m = Some ds \<and> val_dataloader ds = None)"
  shows "emits N w w'"
proof (cases "\<exists>ds. autodataset m = Some ds \<and> val_dataloader ds = None")
  case True
  then have "w' = w" using assms(1) by (auto simp: val_epoch_with_event_def)
  then show ?thesis by (simp add: emits_refl)
next
  case False
  then show ?thesis using assms emits_val_epoch [of m w w' r N] by auto
qed

lemma epoch_body_trace:
  assumes "epoch_body m e w = (w', r)"
      and N: "{Forward, Train_step, Train_epoch} \<subseteq> N"
      and V: "{Forward, Val_step, Val_epoch} \<subseteq> N \<or> (\<exists>ds. autodataset m = Some ds \<and> val_dataloader ds = None)"
  shows "\<exists>ys zs. trace w' = trace w @ Fired on_epoch_start e # ys @ zs
           \<and> list_all (only N) ys
           \<and> (zs = [] \<or> (\<exists>c. zs = [Fired on_epoch_end c]))
           \<and> (r = None \<longrightarrow> zs \<noteq> [])"
proof -
  let ?w0 = "w\<lparr>tracker := (tracker w)\<lparr>current_epoch := e\<rparr>\<rparr>"
  obtain w1 r1 where 1: "on_event m on_epoch_start None ?w0 = (w1, r1)" by force
  obtain w2 r2 where 2: "train_epoch_with_event m w1 = (w2, r2)" by force
  obtain w3 r3 where 3: "val_epoch_with_event m w2 = (w3, r3)" by force
  obtain w4 r4 where 4: "on_event m on_epoch_end None w3 = (w4, r4)" by force
  have t1: "trace w1 = trace w @ [Fired on_epoch_start e]" using on_event_new [OF 1] by simp
  have "emits N w1 w2" using 2 N by (intro emits_train_epoch) auto
  then obtain ys2 where t2: "trace w2 = trace w1 @ ys2" and y2: "list_all (only N) ys2"
    by (auto simp: emits_def)
  have "emits N w2 w3" using 3 V by (rule emits_val_epoch_absent)
  then obtain ys3 where t3: "trace w3 = trace w2 @ ys3" and y3: "list_all (only N) ys3"
    by (auto simp: emits_def)
  have t4: "trace w4 = trace w3 @ [Fired on_epoch_end (current_epoch (tracker w3))]"
    using on_event_new [OF 4] .
  have cases: "(w' = w1 \<and> r \<noteq> None) \<or> (w' = w2 \<and> r \<noteq> None) \<or> (w' = w3 \<and> r \<noteq> None) \<or> w' = w4"
    using assms(1) 1 2 3 4 by (auto simp: epoch_body_def then_do_def split: option.splits)
  have a1: "trace w1 = trace w @ Fired on_epoch_start e # [] @ []" using t1 by simp
  have a2: "trace w2 = trace w @ Fired on_epoch_start e # ys2 @ []" using t1 t2 by simp
  have a3: "trace w3 = trace w @ Fired on_epoch_start e # (ys2 @ ys3) @ []" using t1 t2 t3 by simp
  have a4: "trace w4 = trace w @ Fired on_epoch_start e # (ys2 @ ys3) @ [Fired on_epoch_end (current_epoch (tracker w3))]"
    using t1 t2 t3 t4 by simp
  have y23: "list_all (only N) (ys2 @ ys3)" using y2 y3 by simp
  from cases show ?thesis
  proof (elim disjE conjE)
    assume "w' = w1" "r \<noteq> None"
    then show ?thesis using a1 by (intro exI [of _ "[]"]) simp
  next
    assume "w' = w2" "r \<noteq> None"
    then show ?thesis using a2 y2 by (intro exI [of _ ys2] exI [of _ "[]"]) simp
  next
    assume "w' = w3" "r \<noteq> None"
    then show ?thesis using a3 y23 by (intro exI [of _ "ys2 @ ys3"] exI [of _ "[]"]) simp
  next
    assume "w' = w4"
    then show ?thesis using a4 y23
      by (intro exI [of _ "ys2 @ ys3"] exI [of _ "[Fired on_epoch_end (current_epoch (tracker w3))]"]) simp
  qed
qed

lemma epoch_loop_hooks:
  assumes "\<not> TEST m" and "autodataset m = Some ds" and "val_dataloader ds = None"
  shows "epoch_loop m es w = (w', None) \<Longrightarrow>
         \<exists>xs. trace w' = trace w @ xs
            \<and> hooks_fired {Epoch, Val_epoch} xs = concat (map (\<lambda>e. [on_epoch_start, on_epoch_end]) es)
            \<and> fired on_epoch_start xs = es"
proof (induction es arbitrary: w)
  case Nil
  then show ?case by simp
next
  case (Cons e es)
  obtain w1 r1 where 1: "epoch_body m e w = (w1, r1)" by force
  have r1: "r1 = None" using Cons.prems 1 by (cases r1) auto
  have rest: "epoch_loop m es w1 = (w', None)" using Cons.prems 1 r1 assms(1) by simp
  have "\<exists>ys zs. trace w1 = trace w @ Fired on_epoch_start e # ys @ zs
           \<and> list_all (only {Forward, Train_step, Train_epoch}) ys
           \<and> (zs = [] \<or> (\<exists>c. zs = [Fired on_epoch_end c]))
           \<and> (r1 = None \<longrightarrow> zs \<noteq> [])"
    using 1 assms(2,3) by (intro epoch_body_trace) auto
  then obtain ys c where t1: "trace w1 = trace w @ Fired on_epoch_start e # ys @ [Fired on_epoch_end c]"
    and ys: "list_all (only {Forward, Train_step, Train_epoch}) ys"
    using r1 by auto
  have y1: "hooks_fired {Epoch, Val_epoch} ys = []" using ys by (rule only_no_hooks) simp
  have y2: "fired on_epoch_start ys = []" using ys by (rule only_no_fired) simp
  from Cons.IH [OF rest] obtain xs where
    xs: "trace w' = trace w1 @ xs"
        "hooks_fired {Epoch, Val_epoch} xs = concat (map (\<lambda>e. [on_epoch_start, on_epoch_end]) es)"
        "fired on_epoch_start xs = es"
    by blast
  have "trace w' = trace w @ (Fired on_epoch_start e # ys @ [Fired on_epoch_end c] @ xs)"
    using t1 xs(1) by simp
  moreover have "hooks_fired {Epoch, Val_epoch} (Fired on_epoch_start e # ys @ [Fired on_epoch_end c] @ xs)
      = concat (map (\<lambda>e. [on_epoch_start, on_epoch_end]) (e # es))"
    using y1 xs(2) by (simp add: hooks_fired_append)
  moreover have "fired on_epoch_start (Fired on_epoch_start e # ys @ [Fired on_epoch_end c] @ xs) = e # es"
    using y2 xs(3) by (simp add: fired_append)
  ultimately show ?case by blast
qed




section \<open>Runs in which nothing raises\<close>

lemma run_callbacks_quiet:
  assumes "\<forall>c \<in> set cbs. quiet c"
  shows "snd (run_callbacks cbs h p s) = None
       \<and> steps_per_epoch (fst (fst (run_callbacks cbs h p s))) = steps_per_epoch (fst s)
       \<and> max_epochs (fst (fst (run_callbacks cbs h p s))) = max_epochs (fst s)
       \<and> current_epoch (fst (fst (run_callbacks cbs h p s))) = current_epoch (fst s)"
  using assms
proof (induction cbs arbitrary: s)
  case Nil
  then show ?case by simp
next
  case (Cons c cbs)
  obtain s1 r1 where 1: "c h p s = (s1, r1)" by (meson surj_pair)
  have q: "r1 = None \<and> steps_per_epoch (fst s1) = steps_per_epoch (fst s)
         \<and> max_epochs (fst s1) = max_epochs (fst s) \<and> current_epoch (fst s1) = current_epoch (fst s)"
    using Cons.prems 1 unfolding quiet_def by (metis fst_conv list.set_intros(1) snd_conv)
  have "\<forall>c \<in> set cbs. quiet c" using Cons.prems by simp
  from Cons.IH [OF this, of s1] show ?case using 1 q by simp
qed

lemma on_event_quiet:
  assumes "\<forall>c \<in> set (callbacks m). quiet c"
  shows "\<exists>w'. on_event m h p w = (w', None)
       \<and> steps_per_epoch (tracker w') = steps_per_epoch (tracker w)
       \<and> max_epochs (tracker w') = max_epochs (tracker w)
       \<and> current_epoch (tracker w') = current_epoch (tracker w)
       \<and> trace w' = trace w @ [Fired h (current_epoch (tracker w))]"
  using run_callbacks_quiet [OF assms, of h p "(tracker w, heap w)"]
  by (auto simp: on_event_def split: prod.splits)

lemma normal_on_event:
  assumes "\<forall>c \<in> set (callbacks m). quiet c"
  shows "normal (on_event m h p) w []"
  using on_event_quiet [OF assms, of h p w] by (auto simp: normal_def)

lemma normal_then_do:
  assumes "normal p w bs"
      and "\<And>w'. steps_per_epoch (tracker w') = steps_per_epoch (tracker w) \<Longrightarrow> normal q w' cs"
  shows "normal (then_do p q) w (bs @ cs)"
proof -
  obtain w1 where 1: "p w = (w1, None)" using assms(1) by (cases "p w") (auto simp: normal_def)
  have s1: "steps_per_epoch (tracker w1) = steps_per_epoch (tracker w)"
    and m1: "max_epochs (tracker w1) = max_epochs (tracker w)"
    using assms(1) 1 by (auto simp: normal_def)
  obtain xs where xs: "trace w1 = trace w @ xs" "train_step_calls xs = bs"
    using assms(1) 1 by (auto simp: normal_def)
  have n2: "normal q w1 cs" using assms(2) s1 by blast
  then obtain ys where ys: "trace (fst (q w1)) = trace w1 @ ys" "train_step_calls ys = cs"
    by (auto simp: normal_def)
  have t: "then_do p q w = q w1" using 1 by (simp add: then_do_def)
  have "trace (fst (q w1)) = trace w @ (xs @ ys) \<and> train_step_calls (xs @ ys) = bs @ cs"
    using xs ys by (simp add: train_step_calls_append)
  then show ?thesis using t n2 s1 m1 unfolding normal_def by (metis (no_types))
qed

lemma step_quiet:
  assumes "\<forall>c \<in> set (callbacks m). quiet c" and "returns (learner m)"
  shows "\<exists>w' outs ys. step m b w = (w', Inr outs)
       \<and> steps_per_epoch (tracker w') = steps_per_epoch (tracker w)
       \<and> max_epochs (tracker w') = max_epochs (tracker w)
       \<and> trace w' = trace w @ ys \<and> train_step_calls ys = []"
proof -
  obtain inputs where i: "fetch_inputs (learner m) b = Inr inputs"
    using assms(2) unfolding returns_def by blast
  obtain target where t: "fetch_target (learner m) b = Inr target"
    using assms(2) unfolding returns_def by blast
  obtain logits where f: "forward (learner m) inputs = Inr logits"
    using assms(2) unfolding returns_def by blast
  obtain l where l: "loss_fn (learner m) logits target = Inr l"
    using assms(2) unfolding returns_def by blast
  obtain ms where ms: "calculate_metrics (learner m) logits target = Inr ms"
    using assms(2) unfolding returns_def by blast
  obtain w1 where 1: "on_event m on_forward_start None w = (w1, None)"
    "steps_per_epoch (tracker w1) = steps_per_epoch (tracker w)"
    "max_epochs (tracker w1) = max_epochs (tracker w)"
    "trace w1 = trace w @ [Fired on_forward_start (current_epoch (tracker w))]"
    using on_event_quiet [OF assms(1), of on_forward_start None w] by blast
  obtain w2 where 2: "on_event m on_forward_end None w1 = (w2, None)"
    "steps_per_epoch (tracker w2) = steps_per_epoch (tracker w1)"
    "max_epochs (tracker w2) = max_epochs (tracker w1)"
    "trace w2 = trace w1 @ [Fired on_forward_end (current_epoch (tracker w1))]"
    using on_event_quiet [OF assms(1), of on_forward_end None w1] by blast
  have "step m b w = (w2, Inr \<lparr>out_loss = l, out_metrics = ms\<rparr>)"
    using i t f l ms 1(1) 2(1) by (simp add: step_def forward_once_def)
  then show ?thesis using 1 2 by simp
qed

lemma train_loop_quiet:
  assumes "\<forall>c \<in> set (callbacks m). quiet c" and "returns (learner m)" and "\<not> TEST m"
      and "\<And>j. \<not> reached spe j"
  shows "normal (train_loop m spe i dl) w dl"
proof (induction dl arbitrary: i w)
  case Nil
  then show ?case by (simp add: normal_def)
next
  case (Cons b rest)
  obtain w1 where 1: "on_event m on_train_step_start None (set_train_steps i w) = (w1, None)"
    "steps_per_epoch (tracker w1) = steps_per_epoch (tracker w)"
    "max_epochs (tracker w1) = max_epochs (tracker w)"
    "trace w1 = trace w @ [Fired on_train_step_start (current_epoch (tracker w))]"
    using on_event_quiet [OF assms(1), of on_train_step_start None "set_train_steps i w"]
    by (auto simp: set_train_steps_def)
  obtain w2 outs ys where 2: "train_step m b w1 = (w2, Inr outs)"
    "steps_per_epoch (tracker w2) = steps_per_epoch (tracker w1)"
    "max_epochs (tracker w2) = max_epochs (tracker w1)"
    "trace w2 = trace w1 @ Called_train_step b # ys" "train_step_calls ys = []"
    using step_quiet [OF assms(1,2), of b "w1\<lparr>trace := trace w1 @ [Called_train_step b]\<rparr>"]
    by (auto simp: train_step_def)
  obtain w3 where 3: "on_event m on_train_step_end (Some (b, outs)) w2 = (w3, None)"
    "steps_per_epoch (tracker w3) = steps_per_epoch (tracker w2)"
    "max_epochs (tracker w3) = max_epochs (tracker w2)"
    "trace w3 = trace w2 @ [Fired on_train_step_end (current_epoch (tracker w2))]"
    using on_event_quiet [OF assms(1), of on_train_step_end "Some (b, outs)" w2] by blast
  have eq: "train_loop m spe i (b # rest) w = train_loop m spe (Suc i) rest w3"
    using 1(1) 2(1) 3(1) assms(3,4) by simp
  have n: "normal (train_loop m spe (Suc i) rest) w3 rest" by (rule Cons.IH)
  then obtain xs where xs: "trace (fst (train_loop m spe (Suc i) rest w3)) = trace w3 @ xs"
    "train_step_calls xs = rest"
    by (auto simp: normal_def)
  let ?new = "[Fired on_train_step_start (current_epoch (tracker w))] @ Called_train_step b # ys
              @ [Fired on_train_step_end (current_epoch (tracker w2))] @ xs"
  have "trace (fst (train_loop m spe (Suc i) rest w3)) = trace w @ ?new"
    using 1(4) 2(4) 3(4) xs(1) by simp
  moreover have "train_step_calls ?new = b # rest"
    using 2(5) xs(2) by (simp add: train_step_calls_append)
  ultimately show ?case
    using eq n 1(2,3) 2(2,3) 3(2,3) unfolding normal_def by (metis (no_types))
qed


lemma val_loop_quiet:
  assumes "\<forall>c \<in> set (callbacks m). quiet c" and "returns (learner m)" and "\<not> TEST m"
  shows "normal (val_loop m i dl) w []"
proof (induction dl arbitrary: i w)
  case Nil
  then show ?case by (simp add: normal_def)
next
  case (Cons b rest)
  obtain w1 where 1: "on_event m on_val_step_start None (set_val_steps i w) = (w1, None)"
    "steps_per_epoch (tracker w1) = steps_per_epoch (tracker w)"
    "max_epochs (tracker w1) = max_epochs (tracker w)"
    "trace w1 = trace w @ [Fired on_val_step_start (current_epoch (tracker w))]"
    using on_event_quiet [OF assms(1), of on_val_step_start None "set_val_steps i w"]
    by (auto simp: set_val_steps_def)
  obtain w2 outs ys where 2: "val_step m b w1 = (w2, Inr outs)"
    "steps_per_epoch (tracker w2) = steps_per_epoch (tracker w1)"
    "max_epochs (tracker w2) = max_epochs (tracker w1)"
    "trace w2 = trace w1 @ Called_val_step b # ys" "train_step_calls ys = []"
    using step_quiet [OF assms(1,2), of b "w1\<lparr>trace := trace w1 @ [Called_val_step b]\<rparr>"]
    by (auto simp: val_step_def)
  obtain w3 where 3: "on_event m on_val_step_end (Some (b, outs)) w2 = (w3, None)"
    "steps_per_epoch (tracker w3) = steps_per_epoch (tracker w2)"
    "max_epochs (tracker w3) = max_epochs (tracker w2)"
    "trace w3 = trace w2 @ [Fired on_val_step_end (current_epoch (tracker w2))]"
    using on_event_quiet [OF assms(1), of on_val_step_end "Some (b, outs)" w2] by blast
  have eq: "val_loop m i (b # rest) w = val_loop m (Suc i) rest w3"
    using 1(1) 2(1) 3(1) assms(3) by simp
  have n: "normal (val_loop m (Suc i) rest) w3 []" by (rule Cons.IH)
  then obtain xs where xs: "trace (fst (val_loop m (Suc i) rest w3)) = trace w3 @ xs"
    "train_step_calls xs = []"
    by (auto simp: normal_def)
  let ?new = "[Fired on_val_step_start (current_epoch (tracker w))] @ Called_val_step b # ys
              @ [Fired on_val_step_end (current_epoch (tracker w2))] @ xs"
  have "trace (fst (val_loop m (Suc i) rest w3)) = trace w @ ?new"
    using 1(4) 2(4) 3(4) xs(1) by simp
  moreover have "train_step_calls ?new = []"
    using 2(5) xs(2) by (simp add: train_step_calls_append)
  ultimately show ?case
    using eq n 1(2,3) 2(2,3) 3(2,3) unfolding normal_def by (metis (no_types))
qed

lemma train_epoch_quiet:
  assumes q: "\<forall>c \<in> set (callbacks m). quiet c" and r: "returns (learner m)" and t: "\<not> TEST m"
      and ds: "autodataset m = Some ds"
      and z: "\<And>j. \<not> reached (steps_per_epoch (tracker w)) j"
  shows "normal (train_epoch_with_event m) w (train_dataloader ds)"
proof -
  have a: "normal (train_one_epoch m (train_dataloader ds)) w' (train_dataloader ds)"
    if "steps_per_epoch (tracker w') = steps_per_epoch (tracker w)" for w'
  proof -
    have "normal (train_loop m (steps_per_epoch (tracker w')) 0 (train_dataloader ds)) w' (train_dataloader ds)"
      using q r t z that by (intro train_loop_quiet) auto
    then show ?thesis by (simp add: normal_def train_one_epoch_def)
  qed
  have b: "normal (then_do (train_one_epoch m (train_dataloader ds)) (on_event m on_train_epoch_end None))
             w' (train_dataloader ds @ [])"
    if "steps_per_epoch (tracker w') = steps_per_epoch (tracker w)" for w'
    using a [OF that] normal_on_event [OF q] by (rule normal_then_do)
  have "normal (then_do (on_event m on_train_epoch_start None)
            (then_do (train_one_epoch m (train_dataloader ds)) (on_event m on_train_epoch_end None)))
          w ([] @ (train_dataloader ds @ []))"
    using normal_on_event [OF q] b by (rule normal_then_do)
  then show ?thesis using ds by (simp add: train_epoch_with_event_def normal_def)
qed

lemma val_epoch_quiet:
  assumes q: "\<forall>c \<in> set (callbacks m). quiet c" and r: "returns (learner m)" and t: "\<not> TEST m"
      and ds: "autodataset m = Some ds"
  shows "normal (val_epoch_with_event m) w []"
proof (cases "\<exists>dl. val_dataloader ds = Some dl \<and> dl \<noteq> []")
  case False
  then have "val_epoch_with_event m w = (w, None)"
    using ds by (auto simp: val_epoch_with_event_def split: option.splits)
  then show ?thesis by (simp add: normal_def)
next
  case True
  then obtain dl where dl: "val_dataloader ds = Some dl" "dl \<noteq> []" by blast
  have a: "normal (val_one_epoch m dl) w' []" for w'
    using val_loop_quiet [OF q r t, of 0 dl w'] by (simp add: normal_def val_one_epoch_def)
  have b: "normal (then_do (val_one_epoch m dl) (on_event m on_val_epoch_end None)) w' ([] @ [])" for w'
    using a normal_on_event [OF q] by (rule normal_then_do)
  have "normal (then_do (on_event m on_val_epoch_start None)
            (then_do (val_one_epoch m dl) (on_event m on_val_epoch_end None))) w ([] @ ([] @ []))"
    using normal_on_event [OF q] b by (rule normal_then_do)
  then show ?thesis using ds dl by (simp add: val_epoch_with_event_def normal_def)
qed

lemma epoch_body_quiet:
  assumes q: "\<forall>c \<in> set (callbacks m). quiet c" and r: "returns (learner m)" and t: "\<not> TEST m"
      and ds: "autodataset m = Some ds"
      and z: "\<And>j. \<not> reached (steps_per_epoch (tracker w)) j"
  shows "normal (epoch_body m e) w (train_dataloader ds)"
proof -
  let ?w0 = "w\<lparr>tracker := (tracker w)\<lparr>current_epoch := e\<rparr>\<rparr>"
  have c: "normal (then_do (val_epoch_with_event m) (on_event m on_epoch_end None)) w' ([] @ [])" for w'
    using val_epoch_quiet [OF q r t ds] normal_on_event [OF q] by (rule normal_then_do)
  have b: "normal (then_do (train_epoch_with_event m)
             (then_do (val_epoch_with_event m) (on_event m on_epoch_end None))) w'
             (train_dataloader ds @ ([] @ []))"
    if "steps_per_epoch (tracker w') = steps_per_epoch (tracker ?w0)" for w'
  proof -
    have "normal (train_epoch_with_event m) w' (train_dataloader ds)"
      using q r t ds z that by (intro train_epoch_quiet) auto
    then show ?thesis using c by (rule normal_then_do)
  qed
  have "normal (then_do (on_event m on_epoch_start None)
          (then_do (train_epoch_with_event m)
             (then_do (val_epoch_with_event m) (on_event m on_epoch_end None))))
          ?w0 ([] @ (train_dataloader ds @ ([] @ [])))"
    using normal_on_event [OF q] b by (rule normal_then_do)
  then show ?thesis by (simp add: epoch_body_def normal_def)
qed

lemma epoch_loop_quiet:
  assumes q: "\<forall>c \<in> set (callbacks m). quiet c" and r: "returns (learner m)" and t: "\<not> TEST m"
      and ds: "autodataset m = Some ds"
  shows "(\<And>j. \<not> reached (steps_per_epoch (tracker w)) j) \<Longrightarrow>
         normal (epoch_loop m es) w (concat (map (\<lambda>e. train_dataloader ds) es))"
proof (induction es arbitrary: w)
  case Nil
  then show ?case by (simp add: normal_def)
next
  case (Cons e es)
  have b: "normal (epoch_body m e) w (train_dataloader ds)"
    using q r t ds Cons.prems by (rule epoch_body_quiet)
  then obtain w1 where 1: "epoch_body m e w = (w1, None)"
    by (cases "epoch_body m e w") (auto simp: normal_def)
  have rest: "normal (epoch_loop m es) w' (concat (map (\<lambda>e. train_dataloader ds) es))"
    if "steps_per_epoch (tracker w') = steps_per_epoch (tracker w)" for w'
    using Cons.IH [of w'] Cons.prems that by simp
  have "normal (then_do (epoch_body m e) (epoch_loop m es)) w
          (train_dataloader ds @ concat (map (\<lambda>e. train_dataloader ds) es))"
    using b rest by (rule normal_then_do)
  moreover have "then_do (epoch_body m e) (epoch_loop m es) w = epoch_loop m (e # es) w"
    using 1 t by (simp add: then_do_def)
  ultimately show ?case by (simp add: normal_def)
qed

lemma normal_bracket:
  assumes q: "\<forall>c \<in> set (callbacks m). quiet c"
      and b: "\<And>w'. steps_per_epoch (tracker w') = steps_per_epoch (tracker w) \<Longrightarrow>
                   max_epochs (tracker w') = max_epochs (tracker w) \<Longrightarrow>
                   current_epoch (tracker w') = current_epoch (tracker w) \<Longrightarrow> normal body w' bs"
      and p: "\<And>w1 w2 w3. on_event m h1 None w = (w1, None) \<Longrightarrow> body w1 = (w2, None) \<Longrightarrow>
                   on_event m h2 None w2 = (w3, None) \<Longrightarrow> p w = (w3, None)"
  shows "normal p w bs"
proof -
  obtain w1 where 1: "on_event m h1 None w = (w1, None)"
    "steps_per_epoch (tracker w1) = steps_per_epoch (tracker w)"
    "max_epochs (tracker w1) = max_epochs (tracker w)"
    "current_epoch (tracker w1) = current_epoch (tracker w)"
    "trace w1 = trace w @ [Fired h1 (current_epoch (tracker w))]"
    using on_event_quiet [OF q, of h1 None w] by blast
  have nb: "normal body w1 bs" using b 1(2,3,4) by blast
  then obtain w2 where 2: "body w1 = (w2, None)"
    by (cases "body w1") (auto simp: normal_def)
  have n2: "steps_per_epoch (tracker w2) = steps_per_epoch (tracker w1)"
    "max_epochs (tracker w2) = max_epochs (tracker w1)"
    using nb 2 by (auto simp: normal_def)
  obtain xs where xs: "trace w2 = trace w1 @ xs" "train_step_calls xs = bs"
    using nb 2 by (auto simp: normal_def)
  obtain w3 where 3: "on_event m h2 None w2 = (w3, None)"
    "steps_per_epoch (tracker w3) = steps_per_epoch (tracker w2)"
    "max_epochs (tracker w3) = max_epochs (tracker w2)"
    "trace w3 = trace w2 @ [Fired h2 (current_epoch (tracker w2))]"
    using on_event_quiet [OF q, of h2 None w2] by blast
  have eq: "p w = (w3, None)" using 1(1) 2 3(1) by (rule p)
  let ?new = "[Fired h1 (current_epoch (tracker w))] @ xs @ [Fired h2 (current_epoch (tracker w2))]"
  have "trace w3 = trace w @ ?new" using 1(5) xs(1) 3(4) by simp
  moreover have "train_step_calls ?new = bs" using xs(2) by (simp add: train_step_calls_append)
  ultimately show ?thesis using eq 1(2,3) n2 3(2,3) unfolding normal_def
    by (metis (no_types) fst_conv snd_conv)
qed

lemma epoch_quiet:
  assumes q: "\<forall>c \<in> set (callbacks m). quiet c" and r: "returns (learner m)" and t: "\<not> TEST m"
      and ds: "autodataset m = Some ds"
      and z: "\<And>j. \<not> reached (steps_per_epoch (tracker w)) j"
  shows "normal (epoch m) w
           (concat (map (\<lambda>e. train_dataloader ds) [current_epoch (tracker w) .. max_epochs (tracker w) - 1]))"
  using epoch_loop_quiet [OF q r t ds z, of "[current_epoch (tracker w) .. max_epochs (tracker w) - 1]"]
  by (simp add: normal_def epoch_def)

lemma epoch_scope_quiet:
  fixes m :: "'b model"
  assumes q: "\<forall>c \<in> set (callbacks m). quiet c" and r: "returns (learner m)" and t: "\<not> TEST m"
      and ds: "autodataset m = Some ds"
      and z: "\<And>j. \<not> reached (steps_per_epoch (tracker w)) j"
  shows "normal (with_event m Epoch (epoch m) EpochCancel) w
           (concat (map (\<lambda>e. train_dataloader ds) [current_epoch (tracker w) .. max_epochs (tracker w) - 1]))"
proof (rule normal_bracket [OF q, where ?h1.0 = on_epoch_start and ?h2.0 = on_epoch_end and body = "epoch m"])
  fix w' :: "'b world"
  assume "steps_per_epoch (tracker w') = steps_per_epoch (tracker w)"
    "max_epochs (tracker w') = max_epochs (tracker w)"
    "current_epoch (tracker w') = current_epoch (tracker w)"
  then show "normal (epoch m) w'
      (concat (map (\<lambda>e. train_dataloader ds) [current_epoch (tracker w) .. max_epochs (tracker w) - 1]))"
    using epoch_quiet [OF q r t ds, of w'] z by simp
next
  fix w1 w2 w3
  assume "on_event m on_epoch_start None w = (w1, None)" "epoch m w1 = (w2, None)"
    "on_event m on_epoch_end None w2 = (w3, None)"
  then show "with_event m Epoch (epoch m) EpochCancel w = (w3, None)"
    by (simp add: with_event_def)
qed

lemma fit_with_event_quiet:
  fixes m :: "'b model"
  assumes q: "\<forall>c \<in> set (callbacks m). quiet c" and r: "returns (learner m)" and t: "\<not> TEST m"
      and ds: "autodataset m = Some ds"
      and z: "\<And>j. \<not> reached (steps_per_epoch (tracker w)) j"
  shows "normal (fit_with_event m) w
           (concat (map (\<lambda>e. train_dataloader ds) [current_epoch (tracker w) .. max_epochs (tracker w) - 1]))"
proof (rule normal_bracket [OF q, where ?h1.0 = on_fit_start and ?h2.0 = on_fit_end
        and body = "with_event m Epoch (epoch m) EpochCancel"])
  fix w' :: "'b world"
  assume "steps_per_epoch (tracker w') = steps_per_epoch (tracker w)"
    "max_epochs (tracker w') = max_epochs (tracker w)"
    "current_epoch (tracker w') = current_epoch (tracker w)"
  then show "normal (with_event m Epoch (epoch m) EpochCancel) w'
      (concat (map (\<lambda>e. train_dataloader ds) [current_epoch (tracker w) .. max_epochs (tracker w) - 1]))"
    using epoch_scope_quiet [OF q r t ds, of w'] z by simp
next
  fix w1 w2 w3
  assume "on_event m on_fit_start None w = (w1, None)"
    "with_event m Epoch (epoch m) EpochCancel w1 = (w2, None)"
    "on_event m on_fit_end None w2 = (w3, None)"
  then show "fit_with_event m w = (w3, None)"
    by (simp add: fit_with_event_def then_do_def)
qed

lemma fit_scope_quiet:
  fixes m :: "'b model"
  assumes q: "\<forall>c \<in> set (callbacks m). quiet c" and r: "returns (learner m)" and t: "\<not> TEST m"
      and ds: "autodataset m = Some ds"
      and z: "\<And>j. \<not> reached (steps_per_epoch (tracker w)) j"
  shows "normal (with_event m Fit (fit_with_event m) FitCancel) w
           (concat (map (\<lambda>e. train_dataloader ds) [current_epoch (tracker w) .. max_epochs (tracker w) - 1]))"
proof (rule normal_bracket [OF q, where ?h1.0 = on_fit_start and ?h2.0 = on_fit_end
        and body = "fit_with_event m"])
  fix w' :: "'b world"
  assume "steps_per_epoch (tracker w') = steps_per_epoch (tracker w)"
    "max_epochs (tracker w') = max_epochs (tracker w)"
    "current_epoch (tracker w') = current_epoch (tracker w)"
  then show "normal (fit_with_event m) w'
      (concat (map (\<lambda>e. train_dataloader ds) [current_epoch (tracker w) .. max_epochs (tracker w) - 1]))"
    using fit_with_event_quiet [OF q r t ds, of w'] z by simp
next
  fix w1 w2 w3
  assume "on_event m on_fit_start None w = (w1, None)" "fit_with_event m w1 = (w2, None)"
    "on_event m on_fit_end None w2 = (w3, None)"
  then show "with_event m Fit (fit_with_event m) FitCancel w = (w3, None)"
    by (simp add: with_event_def)
qed

lemma fit_try_quiet:
  assumes q: "\<forall>c \<in> set (callbacks m). quiet c" and r: "returns (learner m)" and t: "\<not> TEST m"
      and ds: "autodataset m = Some ds"
      and z: "\<And>j. \<not> reached (steps_per_epoch (tracker w)) j"
  shows "snd (fit_try m w) = None
       \<and> train_step_calls (new_events w (fst (fit_try m w)))
           = concat (map (\<lambda>e. train_dataloader ds) [current_epoch (tracker w) .. max_epochs (tracker w) - 1])"
proof -
  have n: "normal (with_event m Fit (fit_with_event m) FitCancel) w
           (concat (map (\<lambda>e. train_dataloader ds) [current_epoch (tracker w) .. max_epochs (tracker w) - 1]))"
    using q r t ds z by (rule fit_scope_quiet)
  then obtain w1 where 1: "with_event m Fit (fit_with_event m) FitCancel w = (w1, None)"
    by (cases "with_event m Fit (fit_with_event m) FitCancel w") (auto simp: normal_def)
  obtain xs where xs: "trace w1 = trace w @ xs"
    "train_step_calls xs = concat (map (\<lambda>e. train_dataloader ds) [current_epoch (tracker w) .. max_epochs (tracker w) - 1])"
    using n 1 by (auto simp: normal_def)
  have "fit_try m w = (clean w1, None)" using 1 by (simp add: fit_try_def)
  then show ?thesis using xs
    by (simp add: clean_def new_events_def train_step_calls_append)
qed

lemma foldl_register:
  "foldl (\<lambda>mm callback. mm\<lparr>callbacks := callbacks mm @ [callback]\<rparr>) m cs = m\<lparr>callbacks := callbacks m @ cs\<rparr>"
  by (induction cs arbitrary: m) auto

lemma fit_setup_returns:
  assumes "compiled m" and "prepare_data (autodataset_arg a) = None"
  shows "\<exists>m' w'. fit_setup a m w = ((m', w'), None)
       \<and> TEST m' = TEST m \<and> learner m' = learner m \<and> autodataset m' = Some (autodataset_arg a)
       \<and> callbacks m' = callbacks m @ (if show_progress a then [progress a] else []) @ callbacks_arg a
       \<and> trace w' = trace w
       \<and> steps_per_epoch (tracker w') = steps_per_epoch_arg a
       \<and> max_epochs (tracker w') = max_epochs_arg a
       \<and> current_epoch (tracker w') = (if resume a then current_epoch (tracker w) else 0)"
  using assms
  by (auto simp: fit_setup_def Let_def foldl_register reset_def alloc_def split: prod.splits)

section \<open>What the float format prints\<close>











text \<open>The definitions a run on a concrete input unfolds.\<close>

lemmas engine_defs = fit_def fit_try_def fit_setup_def with_event_def fit_with_event_def epoch_def
  epoch_body_def then_do_def on_event_def train_epoch_with_event_def val_epoch_with_event_def
  train_one_epoch_def val_one_epoch_def train_step_def val_step_def step_def forward_once_def
  set_train_steps_def set_val_steps_def reached_def clean_def logger_info_def reset_def alloc_def
  modify_def

lemmas example_defs = model0_def args0_def dataset0_def learner0_def world0_def tracker0_def heap0_def
  idle_def cancel_first_epoch_def cancel_second_epoch_def interrupting_def



section \<open>The tracker\<close>

text \<open>
  C5. After \<open>reset\<close> the counters read 0, 0 and \<open>None\<close> and the logs are empty; \<open>train\<close>
  and \<open>val\<close> refer to two newly constructed \<open>TrackingValues\<close>, at references different
  from each other and from the two references held before, and the objects behind the
  old references are left as they were. A second \<open>reset\<close> leaves the same observable
  state as the first.
\<close>

theorem reset_fresh:
  assumes "allocated s"
  shows "current_epoch (fst (reset s)) = 0 \<and> max_epochs (fst (reset s)) = 0
       \<and> steps_per_epoch (fst (reset s)) = None \<and> logs (fst (reset s)) = []
       \<and> objs (snd (reset s)) (train (fst (reset s))) = TrackingValues
       \<and> objs (snd (reset s)) (val (fst (reset s))) = TrackingValues
       \<and> train (fst (reset s)) \<notin> {train (fst s), val (fst s)}
       \<and> val (fst (reset s)) \<notin> {train (fst s), val (fst s)}
       \<and> train (fst (reset s)) \<noteq> val (fst (reset s))
       \<and> objs (snd (reset s)) (train (fst s)) = objs (snd s) (train (fst s))
       \<and> objs (snd (reset s)) (val (fst s)) = objs (snd s) (val (fst s))
       \<and> allocated (reset s)
       \<and> observe (reset (reset s)) = observe (reset s)"
  using assms by (auto simp: reset_def alloc_def allocated_def observe_def Let_def)

theorem reset_fresh_witness:
  "allocated (tracker0\<lparr>current_epoch := 2, max_epochs := 3, steps_per_epoch := Some 2\<rparr>, heap0)
   \<and> observe (reset (tracker0\<lparr>current_epoch := 2, max_epochs := 3, steps_per_epoch := Some 2\<rparr>, heap0))
       = (0, 0, None, TrackingValues, TrackingValues, [])
   \<and> train (fst (reset (tracker0\<lparr>current_epoch := 2, max_epochs := 3, steps_per_epoch := Some 2\<rparr>, heap0))) = 2
   \<and> val (fst (reset (tracker0\<lparr>current_epoch := 2, max_epochs := 3, steps_per_epoch := Some 2\<rparr>, heap0))) = 3"
proof -
  have a: "allocated (tracker0\<lparr>current_epoch := 2, max_epochs := 3, steps_per_epoch := Some 2\<rparr>, heap0)"
    by (simp add: allocated_def tracker0_def heap0_def)
  show ?thesis
    using a reset_fresh [OF a]
    by (simp add: observe_def reset_def alloc_def tracker0_def heap0_def)
qed

text \<open>
  C6. \<open>tracker["train"]\<close> and \<open>tracker["val"]\<close> return the bundle of that mode,
  \<open>tracker["metrics"]\<close> the two metric mappings, \<open>tracker["loss"]\<close> the two loss
  averages; every other key raises \<open>KeyError\<close>.
\<close>

theorem getitem_views:
  "getitem ''train'' s = Inr (Bundle (train (fst s)))
   \<and> getitem ''val'' s = Inr (Bundle (val (fst s)))
   \<and> getitem ''metrics'' s = Inr (MetricsView (metrics (objs (snd s) (train (fst s)))) (metrics (objs (snd s) (val (fst s)))))
   \<and> getitem ''loss'' s = Inr (LossView (avg (loss (objs (snd s) (train (fst s))))) (avg (loss (objs (snd s) (val (fst s))))))
   \<and> (\<forall>key. key \<notin> {''train'', ''val'', ''metrics'', ''loss''} \<longrightarrow>
         getitem key s = Inl (KeyError (''key '' @ key @ '' is not implemented!'')))"
  by (simp add: getitem_def mode_def train_metrics_def val_metrics_def train_loss_def val_loss_def)

theorem getitem_views_witness:
  "''steps'' \<notin> {''train'', ''val'', ''metrics'', ''loss''}
   \<and> getitem ''steps'' (tracker0, heap0) = Inl (KeyError ''key steps is not implemented!'')
   \<and> getitem ''val'' (tracker0, heap0) = Inr (Bundle 1)"
  using getitem_views [of "(tracker0, heap0)"] by (simp add: tracker0_def)

text \<open>
  C10. \<open>track_loss\<close> and \<open>track_metrics\<close> called with a mode other than "train" and
  "val" raise \<open>KeyError\<close> and leave the tracker and its bundles as they were.
\<close>

theorem track_bad_mode:
  assumes "m \<noteq> ''train''" and "m \<noteq> ''val''"
  shows "track_loss l m s = (s, Some (KeyError (''mode '' @ m @ '' is not implemented!'')))
       \<and> track_metrics metric m s = (s, Some (KeyError (''mode '' @ m @ '' is not implemented!'')))"
  using assms by (simp add: track_loss_def track_metrics_def mode_def)

theorem track_bad_mode_witness:
  "''test'' \<noteq> ''train'' \<and> ''test'' \<noteq> ''val''
   \<and> track_loss (1/2) ''test'' (tracker0, heap0) = ((tracker0, heap0), Some (KeyError ''mode test is not implemented!''))
   \<and> track_metrics [(''accuracy'', 1)] ''test'' (tracker0, heap0) = ((tracker0, heap0), Some (KeyError ''mode test is not implemented!''))"
  using track_bad_mode [of "''test''" "1/2" "(tracker0, heap0)" "[(''accuracy'', 1)]"] by simp





section \<open>The engine\<close>

text \<open>
  C4 (as amended). Once the statements before the \<open>try\<close> have returned (the model is
  compiled and \<open>prepare_data\<close> did not raise), every way out of \<open>fit\<close> calls \<open>clean()\<close>
  exactly once, as the last thing it does: after a normal end of the fit scope, after a
  \<open>KeyboardInterrupt\<close>, which is logged and not propagated, and after any other
  exception that leaves the fit scope, which is propagated.
\<close>

theorem fit_clean_once:
  assumes "compiled m" and "prepare_data (autodataset_arg a) = None"
  shows "\<exists>m' w'. fit_setup a m w = ((m', w'), None)
       \<and> count_list (trace (snd (fst (fit a m w)))) Cleaned = Suc (count_list (trace w) Cleaned)
       \<and> last (trace (snd (fst (fit a m w)))) = Cleaned
       \<and> snd (fit a m w) \<noteq> Some KeyboardInterrupt
       \<and> (snd (with_event m' Fit (fit_with_event m') FitCancel w') = None \<longrightarrow> snd (fit a m w) = None)
       \<and> (snd (with_event m' Fit (fit_with_event m') FitCancel w') = Some KeyboardInterrupt \<longrightarrow>
            snd (fit a m w) = None
            \<and> Logged ''Keyboard interruption detected'' \<in> set (new_events w (snd (fst (fit a m w)))))
       \<and> (\<forall>e. e \<noteq> KeyboardInterrupt \<and> snd (with_event m' Fit (fit_with_event m') FitCancel w') = Some e \<longrightarrow>
            snd (fit a m w) = Some e)"
proof -
  obtain m' w' where s: "fit_setup a m w = ((m', w'), None)"
    using assms by (simp add: fit_setup_def Let_def)
  obtain w1 r1 where 1: "with_event m' Fit (fit_with_event m') FitCancel w' = (w1, r1)" by force
  have tr: "trace w' = trace w" using s by (rule fit_setup_trace)
  have em: "emits UNIV w' w1" using 1 by (rule emits_fit_scope)
  then have cnt: "count_list (trace w1) Cleaned = count_list (trace w) Cleaned"
    using emits_count_clean tr by metis
  obtain xs where xs: "trace w1 = trace w @ xs" using em tr by (auto simp: emits_def)
  show ?thesis
  proof (cases r1)
    case None
    then have "fit a m w = ((m', clean w1), None)"
      using s 1 by (simp add: fit_def fit_try_def)
    then show ?thesis using s cnt 1 None by (simp add: clean_def)
  next
    case (Some e)
    show ?thesis
    proof (cases "e = KeyboardInterrupt")
      case True
      then have "fit a m w = ((m', clean (logger_info ''Keyboard interruption detected'' w1)), None)"
        using s 1 Some by (simp add: fit_def fit_try_def)
      then show ?thesis using s cnt 1 Some True xs
        by (auto simp: clean_def logger_info_def new_events_def)
    next
      case False
      then have "fit a m w = ((m', clean w1), Some e)"
        using s 1 Some by (simp add: fit_def fit_try_def)
      then show ?thesis using s cnt 1 Some False by (simp add: clean_def)
    qed
  qed
qed

theorem fit_clean_once_witness:
  "compiled (model0 [interrupting] []) \<and> prepare_data (autodataset_arg (args0 [7, 8] 1 None True)) = None
   \<and> fit (args0 [7, 8] 1 None True) (model0 [interrupting] []) world0
     = ((model0 [interrupting] [7, 8],
         \<lparr>tracker = tracker0\<lparr>max_epochs := 1\<rparr>,
          heap = heap0\<lparr>objs := (objs heap0)(0 := TrackingValues\<lparr>steps := Some 0\<rparr>)\<rparr>,
          trace = [Fired on_fit_start 0, Fired on_fit_start 0, Fired on_epoch_start 0, Fired on_epoch_start 0,
                   Fired on_train_epoch_start 0, Fired on_train_step_start 0,
                   Logged ''Keyboard interruption detected'', Cleaned]\<rparr>), None)
   \<and> count_list (trace (snd (fst (fit (args0 [7, 8] 1 None True) (model0 [interrupting] []) world0)))) Cleaned = 1"
proof -
  have h: "compiled (model0 [interrupting] [])"
    "prepare_data (autodataset_arg (args0 [7, 8] 1 None True)) = None"
    by (simp_all add: example_defs)
  have e: "fit (args0 [7, 8] 1 None True) (model0 [interrupting] []) world0
     = ((model0 [interrupting] [7, 8],
         \<lparr>tracker = tracker0\<lparr>max_epochs := 1\<rparr>,
          heap = heap0\<lparr>objs := (objs heap0)(0 := TrackingValues\<lparr>steps := Some 0\<rparr>)\<rparr>,
          trace = [Fired on_fit_start 0, Fired on_fit_start 0, Fired on_epoch_start 0, Fired on_epoch_start 0,
                   Fired on_train_epoch_start 0, Fired on_train_step_start 0,
                   Logged ''Keyboard interruption detected'', Cleaned]\<rparr>), None)"
    by (simp add: engine_defs example_defs Let_def upto.simps)
  show ?thesis using h e fit_clean_once [OF h, of world0] by (auto simp: world0_def)
qed

text \<open>
  C4 as stated fails: an exception of \<open>prepare_data\<close> leaves \<open>fit\<close> before the \<open>try\<close>,
  and \<open>clean()\<close> is not called.
\<close>

theorem fit_without_clean_counterexample:
  "fit ((args0 [7, 8] 1 None True)\<lparr>autodataset_arg := (dataset0 [7, 8])\<lparr>prepare_data := Some (OtherException ''prepare_data'')\<rparr>\<rparr>)
       (model0 [] []) world0
   = ((model0 [] [7, 8]\<lparr>autodataset := Some ((dataset0 [7, 8])\<lparr>prepare_data := Some (OtherException ''prepare_data'')\<rparr>)\<rparr>, world0),
      Some (OtherException ''prepare_data''))
   \<and> count_list (trace world0) Cleaned = 0"
  by (simp add: fit_def fit_setup_def example_defs)

text \<open>
  C7. On a compiled model, \<open>fit\<close> with \<open>resume\<close> on enters its \<open>try\<close> with the
  tracker's \<open>current_epoch\<close>, logs and bundles as the previous call left them; with
  \<open>resume\<close> off it enters with a reset tracker: epoch 0, no logs, two new bundles. In
  both cases \<open>max_epochs\<close> and \<open>steps_per_epoch\<close> are those of the call.
\<close>

theorem fit_resume:
  assumes "compiled m" and "prepare_data (autodataset_arg a) = None"
  shows "\<exists>m' w'. fit_setup a m w = ((m', w'), None)
      \<and> fit a m w = ((m', fst (fit_try m' w')), snd (fit_try m' w'))
      \<and> max_epochs (tracker w') = max_epochs_arg a
      \<and> steps_per_epoch (tracker w') = steps_per_epoch_arg a
      \<and> (resume a \<longrightarrow>
           current_epoch (tracker w') = current_epoch (tracker w) \<and> logs (tracker w') = logs (tracker w)
           \<and> train (tracker w') = train (tracker w) \<and> val (tracker w') = val (tracker w)
           \<and> heap w' = heap w)
      \<and> (\<not> resume a \<longrightarrow>
           observe (tracker w', heap w')
             = (max_epochs_arg a, 0, steps_per_epoch_arg a, TrackingValues, TrackingValues, []))"
  using assms
  by (auto simp: fit_def fit_setup_def Let_def reset_def alloc_def observe_def split: prod.splits)

theorem fit_resume_witness:
  "compiled (model0 [] []) \<and> prepare_data (autodataset_arg (args0 [7] 3 None True)) = None
   \<and> fit_setup (args0 [7] 3 None True) (model0 [] []) (world0\<lparr>tracker := tracker1\<rparr>)
       = ((model0 [] [7], world0\<lparr>tracker := tracker1\<rparr>), None)
   \<and> fit_setup (args0 [7] 3 None False) (model0 [] []) (world0\<lparr>tracker := tracker1\<rparr>)
       = ((model0 [] [7],
           \<lparr>tracker = tracker0\<lparr>max_epochs := 3, train := 2, val := 3\<rparr>,
            heap = \<lparr>objs = (\<lambda>_. TrackingValues), next_ref = 4\<rparr>, trace = []\<rparr>), None)"
proof -
  have h: "compiled (model0 [] [])" "prepare_data (autodataset_arg (args0 [7] 3 None True)) = None"
    by (simp_all add: example_defs)
  show ?thesis
    using h fit_resume [OF h, of "world0\<lparr>tracker := tracker1\<rparr>"]
    by (auto simp: fit_setup_def example_defs tracker1_def reset_def alloc_def TrackingValues_def)
qed




text \<open>
  C3. With \<open>TEST\<close> off, no validation loader, \<open>current_epoch = 0\<close> and \<open>max_epochs = 3\<close>,
  an epoch loop that returns has dispatched \<open>on_epoch_start\<close> and \<open>on_epoch_end\<close> three
  times, in alternation, \<open>on_epoch_start\<close> seeing \<open>current_epoch\<close> 0, 1 and 2, and has
  dispatched neither \<open>on_val_epoch_start\<close> nor \<open>on_val_epoch_end\<close>.
\<close>

theorem three_epochs_without_validation:
  assumes "\<not> TEST m" and "autodataset m = Some ds" and "val_dataloader ds = None"
      and "current_epoch (tracker w) = 0" and "max_epochs (tracker w) = 3"
      and "snd (epoch m w) = None"
  shows "hooks_fired {Epoch, Val_epoch} (new_events w (fst (epoch m w)))
           = [on_epoch_start, on_epoch_end, on_epoch_start, on_epoch_end, on_epoch_start, on_epoch_end]
       \<and> fired on_epoch_start (new_events w (fst (epoch m w))) = [0, 1, 2]"
proof -
  have r: "[0 .. 3 - 1] = [0, 1, 2 :: int]" by (simp add: upto.simps)
  have "epoch_loop m [0, 1, 2] w = (fst (epoch m w), None)"
    using assms(4-6) r by (simp add: epoch_def prod_eq_iff)
  from epoch_loop_hooks [OF assms(1-3) this] show ?thesis
    by (auto simp: new_events_def)
qed

theorem three_epochs_without_validation_witness:
  "\<not> TEST (model0 [idle] [7]) \<and> autodataset (model0 [idle] [7]) = Some (dataset0 [7])
   \<and> val_dataloader (dataset0 [7]) = None
   \<and> current_epoch (tracker (world0\<lparr>tracker := tracker0\<lparr>max_epochs := 3\<rparr>\<rparr>)) = 0
   \<and> max_epochs (tracker (world0\<lparr>tracker := tracker0\<lparr>max_epochs := 3\<rparr>\<rparr>)) = 3
   \<and> snd (epoch (model0 [idle] [7]) (world0\<lparr>tracker := tracker0\<lparr>max_epochs := 3\<rparr>\<rparr>)) = None
   \<and> fired on_epoch_start
        (new_events (world0\<lparr>tracker := tracker0\<lparr>max_epochs := 3\<rparr>\<rparr>)
           (fst (epoch (model0 [idle] [7]) (world0\<lparr>tracker := tracker0\<lparr>max_epochs := 3\<rparr>\<rparr>)))) = [0, 1, 2]"
proof -
  have h: "\<not> TEST (model0 [idle] [7])" "autodataset (model0 [idle] [7]) = Some (dataset0 [7])"
    "val_dataloader (dataset0 [7]) = None"
    "current_epoch (tracker (world0\<lparr>tracker := tracker0\<lparr>max_epochs := 3\<rparr>\<rparr>)) = 0"
    "max_epochs (tracker (world0\<lparr>tracker := tracker0\<lparr>max_epochs := 3\<rparr>\<rparr>)) = 3"
    by (simp_all add: example_defs)
  have n: "snd (epoch (model0 [idle] [7]) (world0\<lparr>tracker := tracker0\<lparr>max_epochs := 3\<rparr>\<rparr>)) = None"
    by (simp add: engine_defs example_defs upto.simps)
  show ?thesis using h n three_epochs_without_validation [OF h n] by simp
qed

text \<open>
  C9. \<open>fit\<close> called with \<open>steps_per_epoch = 0\<close> on a compiled model, \<open>TEST\<close> off, stores
  the 0 on the tracker before its \<open>try\<close>. From any state whose tracker holds that 0,
  \<open>train_one_epoch\<close> is the batch loop without a limit, the one \<open>None\<close> gives, and when
  it returns, \<open>train_step\<close> was called with every batch of the loader, in order, between
  one \<open>on_train_step_start\<close> and one \<open>on_train_step_end\<close> each. When no callback raises
  or touches the tracker's counters and the learner's collaborators return, the whole
  call of \<open>fit\<close> returns having called \<open>train_step\<close> with every batch of the train
  loader in each epoch of its range.
\<close>

theorem zero_steps_per_epoch_is_no_limit:
  assumes "steps_per_epoch_arg a = Some 0" and "compiled m" and "prepare_data (autodataset_arg a) = None"
      and "\<not> TEST m"
  shows "\<exists>m' w'. fit_setup a m w = ((m', w'), None)
       \<and> fit a m w = ((m', fst (fit_try m' w')), snd (fit_try m' w'))
       \<and> steps_per_epoch (tracker w') = Some 0
       \<and> (\<forall>w2 dl. steps_per_epoch (tracker w2) = Some 0 \<longrightarrow>
            train_one_epoch m' dl w2 = train_loop m' None 0 dl w2
            \<and> (snd (train_one_epoch m' dl w2) = None \<longrightarrow>
                 train_step_calls (new_events w2 (fst (train_one_epoch m' dl w2))) = dl
                 \<and> length (fired on_train_step_start (new_events w2 (fst (train_one_epoch m' dl w2)))) = length dl
                 \<and> length (fired on_train_step_end (new_events w2 (fst (train_one_epoch m' dl w2)))) = length dl))
       \<and> ((\<forall>c \<in> set (callbacks m'). quiet c) \<and> returns (learner m) \<longrightarrow>
            snd (fit a m w) = None
            \<and> train_step_calls (new_events w (snd (fst (fit a m w))))
                = concat (map (\<lambda>e. train_dataloader (autodataset_arg a))
                    [(if resume a then current_epoch (tracker w) else 0) .. max_epochs_arg a - 1]))"
proof -
  obtain m' w' where s: "fit_setup a m w = ((m', w'), None)"
    and m': "TEST m' = TEST m" "learner m' = learner m" "autodataset m' = Some (autodataset_arg a)"
    and w': "trace w' = trace w" "steps_per_epoch (tracker w') = steps_per_epoch_arg a"
      "max_epochs (tracker w') = max_epochs_arg a"
      "current_epoch (tracker w') = (if resume a then current_epoch (tracker w) else 0)"
    using fit_setup_returns [OF assms(2,3), of w] by blast
  have f: "fit a m w = ((m', fst (fit_try m' w')), snd (fit_try m' w'))"
    using s by (simp add: fit_def split: prod.splits)
  have nt: "\<not> TEST m'" using m'(1) assms(4) by simp
  have nr: "\<And>j. \<not> reached (Some 0) j" by (simp add: reached_def)
  have loop: "train_one_epoch m' dl w2 = train_loop m' None 0 dl w2
            \<and> (snd (train_one_epoch m' dl w2) = None \<longrightarrow>
                 train_step_calls (new_events w2 (fst (train_one_epoch m' dl w2))) = dl
                 \<and> length (fired on_train_step_start (new_events w2 (fst (train_one_epoch m' dl w2)))) = length dl
                 \<and> length (fired on_train_step_end (new_events w2 (fst (train_one_epoch m' dl w2)))) = length dl)"
    if z: "steps_per_epoch (tracker w2) = Some 0" for w2 dl
  proof -
    have eq: "train_one_epoch m' dl w2 = train_loop m' None 0 dl w2"
      using z reached_cong_loop [of "Some 0" None m' 0 dl w2]
      by (simp add: train_one_epoch_def reached_def)
    have "train_step_calls (new_events w2 w3) = dl
        \<and> length (fired on_train_step_start (new_events w2 w3)) = length dl
        \<and> length (fired on_train_step_end (new_events w2 w3)) = length dl"
      if "train_one_epoch m' dl w2 = (w3, None)" for w3
    proof -
      from that have "train_loop m' (Some 0) 0 dl w2 = (w3, None)"
        using z by (simp add: train_one_epoch_def)
      from train_loop_calls [OF nt this] obtain xs where
        "trace w3 = trace w2 @ xs" "train_step_calls xs = executed (Some 0) 0 dl"
        "length (fired on_train_step_start xs) = length (executed (Some 0) 0 dl)"
        "length (fired on_train_step_end xs) = length (executed (Some 0) 0 dl)"
        by blast
      then show ?thesis using executed_all [of "Some 0" 0 dl] nr
        by (simp add: new_events_def)
    qed
    then show ?thesis using eq by (metis prod.collapse)
  qed
  have run: "snd (fit a m w) = None
            \<and> train_step_calls (new_events w (snd (fst (fit a m w))))
                = concat (map (\<lambda>e. train_dataloader (autodataset_arg a))
                    [(if resume a then current_epoch (tracker w) else 0) .. max_epochs_arg a - 1])"
    if q: "\<forall>c \<in> set (callbacks m'). quiet c" and r: "returns (learner m)"
  proof -
    have r': "returns (learner m')" using r m'(2) by simp
    have z: "\<And>j. \<not> reached (steps_per_epoch (tracker w')) j"
      using w'(2) assms(1) nr by simp
    have "snd (fit_try m' w') = None
       \<and> train_step_calls (new_events w' (fst (fit_try m' w')))
           = concat (map (\<lambda>e. train_dataloader (autodataset_arg a))
               [current_epoch (tracker w') .. max_epochs (tracker w') - 1])"
      using q r' nt m'(3) z by (rule fit_try_quiet)
    then show ?thesis using f w' by (simp add: new_events_def)
  qed
  have s0: "steps_per_epoch (tracker w') = Some 0" using w'(2) assms(1) by simp
  have L: "\<forall>w2 dl. steps_per_epoch (tracker w2) = Some 0 \<longrightarrow>
            train_one_epoch m' dl w2 = train_loop m' None 0 dl w2
            \<and> (snd (train_one_epoch m' dl w2) = None \<longrightarrow>
                 train_step_calls (new_events w2 (fst (train_one_epoch m' dl w2))) = dl
                 \<and> length (fired on_train_step_start (new_events w2 (fst (train_one_epoch m' dl w2)))) = length dl
                 \<and> length (fired on_train_step_end (new_events w2 (fst (train_one_epoch m' dl w2)))) = length dl)"
    using loop by blast
  have R: "(\<forall>c \<in> set (callbacks m'). quiet c) \<and> returns (learner m) \<longrightarrow>
            snd (fit a m w) = None
            \<and> train_step_calls (new_events w (snd (fst (fit a m w))))
                = concat (map (\<lambda>e. train_dataloader (autodataset_arg a))
                    [(if resume a then current_epoch (tracker w) else 0) .. max_epochs_arg a - 1])"
    using run by blast
  from s f s0 L R show ?thesis by blast
qed

theorem zero_steps_per_epoch_is_no_limit_witness:
  "steps_per_epoch_arg (args0 [7, 8, 9] 2 (Some 0) True) = Some 0
   \<and> compiled (model0 [idle] []) \<and> prepare_data (autodataset_arg (args0 [7, 8, 9] 2 (Some 0) True)) = None
   \<and> \<not> TEST (model0 [idle] [])
   \<and> fit_setup (args0 [7, 8, 9] 2 (Some 0) True) (model0 [idle] []) world0
        = ((model0 [idle] [7, 8, 9],
            world0\<lparr>tracker := tracker0\<lparr>steps_per_epoch := Some 0, max_epochs := 2\<rparr>\<rparr>), None)
   \<and> quiet idle \<and> returns learner0
   \<and> snd (fit (args0 [7, 8, 9] 2 (Some 0) True) (model0 [idle] []) world0) = None
   \<and> train_step_calls (new_events world0
        (snd (fst (fit (args0 [7, 8, 9] 2 (Some 0) True) (model0 [idle] []) world0))))
      = [7, 8, 9, 7, 8, 9]"
proof -
  have h: "steps_per_epoch_arg (args0 [7, 8, 9] 2 (Some 0) True) = Some 0"
    "compiled (model0 [idle] [])"
    "prepare_data (autodataset_arg (args0 [7, 8, 9] 2 (Some 0) True)) = None"
    "\<not> TEST (model0 [idle] [])"
    by (simp_all add: example_defs)
  have s: "fit_setup (args0 [7, 8, 9] 2 (Some 0) True) (model0 [idle] []) world0
        = ((model0 [idle] [7, 8, 9],
            world0\<lparr>tracker := tracker0\<lparr>steps_per_epoch := Some 0, max_epochs := 2\<rparr>\<rparr>), None)"
    by (simp add: fit_setup_def example_defs)
  have q: "quiet idle" by (simp add: quiet_def idle_def)
  have r: "returns learner0" by (simp add: returns_def learner0_def)
  have c: "callbacks (model0 [idle] [7, 8, 9]) = [idle]" "learner (model0 [idle] []) = learner0"
    by (simp_all add: model0_def)
  have u: "[(if resume (args0 [7, 8, 9] 2 (Some 0) True) then current_epoch (tracker world0) else 0)
             .. max_epochs_arg (args0 [7, 8, 9] 2 (Some 0) True) - 1] = [0, 1]"
    by (simp add: example_defs upto.simps)
  have d: "train_dataloader (autodataset_arg (args0 [7, 8, 9] 2 (Some 0) True)) = [7, 8, 9]"
    by (simp add: args0_def dataset0_def)
  from zero_steps_per_epoch_is_no_limit [OF h, of world0] obtain m' w' where
    1: "fit_setup (args0 [7, 8, 9] 2 (Some 0) True) (model0 [idle] []) world0 = ((m', w'), None)"
    and 2: "(\<forall>c \<in> set (callbacks m'). quiet c) \<and> returns (learner (model0 [idle] [])) \<longrightarrow>
            snd (fit (args0 [7, 8, 9] 2 (Some 0) True) (model0 [idle] []) world0) = None
            \<and> train_step_calls (new_events world0 (snd (fst (fit (args0 [7, 8, 9] 2 (Some 0) True) (model0 [idle] []) world0))))
                = concat (map (\<lambda>e. train_dataloader (autodataset_arg (args0 [7, 8, 9] 2 (Some 0) True)))
                    [(if resume (args0 [7, 8, 9] 2 (Some 0) True) then current_epoch (tracker world0) else 0)
                       .. max_epochs_arg (args0 [7, 8, 9] 2 (Some 0) True) - 1])"
    by blast
  have "m' = model0 [idle] [7, 8, 9]" using 1 s by simp
  then have "snd (fit (args0 [7, 8, 9] 2 (Some 0) True) (model0 [idle] []) world0) = None
            \<and> train_step_calls (new_events world0 (snd (fst (fit (args0 [7, 8, 9] 2 (Some 0) True) (model0 [idle] []) world0))))
                = [7, 8, 9, 7, 8, 9]"
    using 2 q r c by (simp add: u d)
  then show ?thesis using h s q r by simp
qed

text \<open>
  C2, on the code: with \<open>TEST\<close> off, \<open>steps_per_epoch = 2\<close> and a loader of the five
  batches 10 to 14, \<open>train_one_epoch\<close> runs three train steps, on the batches 10, 11
  and 12: the guard \<open>step >= steps_per_epoch\<close> is tested after the step with index 2.
\<close>

theorem steps_per_epoch_2_runs_3_steps:
  "snd (train_one_epoch (model0 [idle] [10, 11, 12, 13, 14]) [10, 11, 12, 13, 14]
          (world0\<lparr>tracker := tracker0\<lparr>steps_per_epoch := Some 2\<rparr>\<rparr>)) = None
   \<and> trace (fst (train_one_epoch (model0 [idle] [10, 11, 12, 13, 14]) [10, 11, 12, 13, 14]
          (world0\<lparr>tracker := tracker0\<lparr>steps_per_epoch := Some 2\<rparr>\<rparr>)))
       = [Fired on_train_step_start 0, Called_train_step 10, Fired on_forward_start 0,
          Fired on_forward_end 0, Fired on_train_step_end 0,
          Fired on_train_step_start 0, Called_train_step 11, Fired on_forward_start 0,
          Fired on_forward_end 0, Fired on_train_step_end 0,
          Fired on_train_step_start 0, Called_train_step 12, Fired on_forward_start 0,
          Fired on_forward_end 0, Fired on_train_step_end 0]
   \<and> train_step_calls (trace (fst (train_one_epoch (model0 [idle] [10, 11, 12, 13, 14]) [10, 11, 12, 13, 14]
          (world0\<lparr>tracker := tracker0\<lparr>steps_per_epoch := Some 2\<rparr>\<rparr>)))) = [10, 11, 12]"
  by (simp add: engine_defs example_defs)

end
